theory Spec2Isabelle
  imports Main "HOL-Library.Sublist"
begin

section \<open>JavaScript values of the transport options\<close>

text \<open>
  The transport reads its configuration from a plain JavaScript object. The values that
  object holds are modelled by \<open>jsval\<close>: \<open>undefined\<close>, \<open>null\<close>, booleans, strings
  and objects (a map from property names to values; a property that was never set is
  \<open>None\<close>, one set to \<open>undefined\<close> is \<open>Some JUndefined\<close>). Numbers, arrays and
  functions are not modelled. Strings are lists of 8-bit characters.
\<close>

datatype jsval =
    JUndefined
  | JNull
  | JBool bool
  | JStr string
  | JObj "string \<rightharpoonup> jsval"

type_synonym props = "string \<rightharpoonup> jsval"

datatype js_error =
    Error string
  | TypeError string

text \<open>\<open>!v\<close> is \<open>\<not> truthy v\<close>.\<close>

fun truthy :: "jsval \<Rightarrow> bool" where
  "truthy JUndefined = False"
| "truthy JNull = False"
| "truthy (JBool b) = b"
| "truthy (JStr s) = (s \<noteq> [])"
| "truthy (JObj _) = True"

fun typeof :: "jsval \<Rightarrow> string" where
  "typeof JUndefined = ''undefined''"
| "typeof JNull = ''object''"
| "typeof (JBool _) = ''boolean''"
| "typeof (JStr _) = ''string''"
| "typeof (JObj _) = ''object''"

text \<open>String conversion, as done by \<open>+\<close> with a string operand and by template literals.\<close>

fun toString :: "jsval \<Rightarrow> string" where
  "toString JUndefined = ''undefined''"
| "toString JNull = ''null''"
| "toString (JBool b) = (if b then ''true'' else ''false'')"
| "toString (JStr s) = s"
| "toString (JObj _) = ''[object Object]''"

text \<open>\<open>o.name\<close> on an object whose own properties are \<open>ps\<close>.\<close>

definition get_prop :: "props \<Rightarrow> string \<Rightarrow> jsval" where
  "get_prop ps name = (case ps name of None \<Rightarrow> JUndefined | Some v \<Rightarrow> v)"

text \<open>
  \<open>v.name\<close> on any value, for a name that is not a property of the built-in prototypes
  (true of \<open>Bucket\<close>, the only name read this way): reading from \<open>undefined\<close> or
  \<open>null\<close> throws, a boolean or a string has no such property.
\<close>

fun read_member :: "jsval \<Rightarrow> string \<Rightarrow> js_error + jsval" where
  "read_member (JObj ps) name = Inr (get_prop ps name)"
| "read_member JUndefined name = Inl (TypeError (''Cannot read property '' @ name @ '' of undefined''))"
| "read_member JNull name = Inl (TypeError (''Cannot read property '' @ name @ '' of null''))"
| "read_member (JBool _) name = Inr JUndefined"
| "read_member (JStr _) name = Inr JUndefined"

text \<open>Decimal digits of an array index, the property names of a string's characters.\<close>

fun decimal :: "nat \<Rightarrow> string" where
  "decimal n =
     (if n < 10 then [char_of (48 + n)]
      else decimal (n div 10) @ [char_of (48 + n mod 10)])"

declare decimal.simps [simp del]

text \<open>
  \<open>Object.assign(target, source)\<close>: the own enumerable properties of the source are
  written over the target. \<open>undefined\<close>, \<open>null\<close> and booleans have none; a string has
  its characters under their indices.
\<close>

fun Object_assign :: "props \<Rightarrow> jsval \<Rightarrow> props" where
  "Object_assign target (JObj source) = target ++ source"
| "Object_assign target (JStr s) =
     target ++ map_of (zip (map decimal [0..<length s]) (map (\<lambda>c. JStr [c]) s))"
| "Object_assign target _ = target"

section \<open>Construction: \<open>normalizeOptions\<close>\<close>

text \<open>
  The base class (\<open>./abstract\<close>, not part of \<open>s3.js\<close>) stores the \<open>transport\<close> section of the
  command options as \<open>this.options\<close>; \<open>packageJson_name\<close> is the value of
  \<open>this.commandOptions.packageJson.name\<close>. Both are inputs here.
  The function mutates \<open>this.options\<close>; the model returns the updated object, or the
  error thrown.
\<close>

definition awsAuth :: "props \<Rightarrow> props" where
  "awsAuth options =
     [''accessKeyId'' \<mapsto> get_prop options ''accessKeyId'',
      ''secretAccessKey'' \<mapsto> get_prop options ''secretAccessKey'',
      ''signatureVersion'' \<mapsto> JStr ''v4'']"

text \<open>The loop over \<open>['accessKeyId', 'secretAccessKey']\<close>: the first name not set throws.\<close>

fun check_set :: "props \<Rightarrow> string list \<Rightarrow> js_error option" where
  "check_set aws [] = None"
| "check_set aws (name # names) =
     (if \<not> truthy (get_prop aws name)
      then Some (Error (''The transport.'' @ name @ '' option is not set''))
      else check_set aws names)"

definition default_bucket :: "jsval \<Rightarrow> props \<Rightarrow> props" where
  "default_bucket packageJson_name options =
     (if \<not> truthy (get_prop options ''bucket'')
      then options(''bucket'' \<mapsto> JStr (toString packageJson_name @ ''-updates''))
      else options)"

definition coerce_bucket :: "props \<Rightarrow> props" where
  "coerce_bucket options =
     (if typeof (get_prop options ''bucket'') = ''string''
      then options(''bucket'' \<mapsto> JObj [''Bucket'' \<mapsto> get_prop options ''bucket''])
      else options)"

definition check_bucket :: "props \<Rightarrow> js_error + props" where
  "check_bucket options =
     (case read_member (get_prop options ''bucket'') ''Bucket'' of
        Inl e \<Rightarrow> Inl e
      | Inr b \<Rightarrow>
          if \<not> truthy b then Inl (Error ''The transport.bucket option is not set'')
          else Inr options)"

definition merged_aws :: "props \<Rightarrow> props" where
  "merged_aws options = Object_assign (awsAuth options) (get_prop options ''aws'')"

definition normalizeOptions :: "jsval \<Rightarrow> props \<Rightarrow> js_error + props" where
  "normalizeOptions packageJson_name options =
     (let options1 = options(''aws'' \<mapsto> JObj (merged_aws options)) in
      case check_set (merged_aws options) [''accessKeyId'', ''secretAccessKey''] of
        Some e \<Rightarrow> Inl e
      | None \<Rightarrow> check_bucket (coerce_bucket (default_bucket packageJson_name options1)))"

text \<open>
  The bucket values that pass the last three steps of \<open>normalizeOptions\<close>: a falsy
  value (replaced by the default name), a non-empty string, or an object whose
  \<open>Bucket\<close> is set.
\<close>

definition bucket_accepted :: "jsval \<Rightarrow> bool" where
  "bucket_accepted v =
     (case v of
        JUndefined \<Rightarrow> True
      | JNull \<Rightarrow> True
      | JBool b \<Rightarrow> \<not> b
      | JStr s \<Rightarrow> True
      | JObj b \<Rightarrow> truthy (get_prop b ''Bucket''))"

text \<open>
  The documented type of the option (\<open>@param {string|Object} options.transport.bucket\<close>,
  optional): a string, or an object whose \<open>Bucket\<close>, when given, is a string.
\<close>

definition bucket_schema :: "jsval \<Rightarrow> bool" where
  "bucket_schema v =
     (case v of
        JUndefined \<Rightarrow> True
      | JStr s \<Rightarrow> True
      | JObj b \<Rightarrow> (case get_prop b ''Bucket'' of JUndefined \<Rightarrow> True | JStr s \<Rightarrow> True | _ \<Rightarrow> False)
      | _ \<Rightarrow> False)"

section \<open>Paths: Node's \<open>path\<close> module\<close>

text \<open>
  \<open>path.basename\<close> follows the conventions of the host: on POSIX the separator is
  \<open>/\<close>; on Windows both \<open>/\<close> and the backslash separate, and a leading drive
  letter with its colon is skipped. Trailing separators are ignored and the part after
  the last remaining separator is returned.
\<close>

datatype platform = Posix | Win32

definition is_sep :: "platform \<Rightarrow> char \<Rightarrow> bool" where
  "is_sep host c =
     (case host of
        Posix \<Rightarrow> c = CHR ''/''
      | Win32 \<Rightarrow> c = CHR ''/'' \<or> c = CHR 0x5C)"

definition is_letter :: "char \<Rightarrow> bool" where
  "is_letter c = (c \<in> set ''ABCDEFGHIJKLMNOPQRSTUVWXYZabcdefghijklmnopqrstuvwxyz'')"

fun has_drive :: "string \<Rightarrow> bool" where
  "has_drive (a # b # _) = (is_letter a \<and> b = CHR '':'')"
| "has_drive _ = False"

definition path_basename :: "platform \<Rightarrow> string \<Rightarrow> string" where
  "path_basename host p =
     (let body = (if host = Win32 \<and> has_drive p then drop 2 p else p) in
      rev (takeWhile (\<lambda>c. \<not> is_sep host c) (dropWhile (is_sep host) (rev body))))"

text \<open>\<open>s.split(sep)\<close> for a one-character separator: never an empty array.\<close>

fun js_split :: "string \<Rightarrow> char \<Rightarrow> string list" where
  "js_split [] sep = [[]]"
| "js_split (c # cs) sep =
     (if c = sep then [] # js_split cs sep
      else (case js_split cs sep of
              [] \<Rightarrow> [[c]]
            | x # xs \<Rightarrow> (c # x) # xs))"

fun js_join :: "string list \<Rightarrow> string \<Rightarrow> string" where
  "js_join [] sep = []"
| "js_join [x] sep = x"
| "js_join (x # y # ys) sep = x @ sep @ js_join (y # ys) sep"

text \<open>
  \<open>path.posix.normalize\<close>: empty and \<open>.\<close> segments are dropped; \<open>..\<close> removes the
  segment before it, unless there is none or it is \<open>..\<close> itself, in which case it is kept
  for a relative path and dropped for an absolute one.
\<close>

fun normalizeString :: "bool \<Rightarrow> string list \<Rightarrow> string list \<Rightarrow> string list" where
  "normalizeString allowAboveRoot res [] = res"
| "normalizeString allowAboveRoot res (seg # segs) =
     (if seg = [] \<or> seg = ''.'' then normalizeString allowAboveRoot res segs
      else if seg = ''..'' then
        (if res \<noteq> [] \<and> last res \<noteq> ''..''
         then normalizeString allowAboveRoot (butlast res) segs
         else if allowAboveRoot then normalizeString allowAboveRoot (res @ [''..'']) segs
         else normalizeString allowAboveRoot res segs)
      else normalizeString allowAboveRoot (res @ [seg]) segs)"

definition path_posix_normalize :: "string \<Rightarrow> string" where
  "path_posix_normalize p =
     (if p = [] then ''.''
      else
        let isAbsolute = (hd p = CHR ''/'');
            trailingSeparator = (last p = CHR ''/'');
            path = js_join (normalizeString (\<not> isAbsolute) [] (js_split p CHR ''/'')) ''/''
        in if path = [] then (if isAbsolute then ''/'' else if trailingSeparator then ''./'' else ''.'')
           else (if isAbsolute then ''/'' else []) @ path @ (if trailingSeparator then ''/'' else []))"

text \<open>\<open>path.posix.join\<close>: the non-empty arguments joined by \<open>/\<close>, then normalized.\<close>

definition path_posix_join :: "string list \<Rightarrow> string" where
  "path_posix_join args =
     (case filter (\<lambda>arg. arg \<noteq> []) args of
        [] \<Rightarrow> ''.''
      | joined \<Rightarrow> path_posix_normalize (js_join joined ''/''))"

section \<open>What the transport takes from outside \<open>s3.js\<close>\<close>

text \<open>
  \<open>getBuildId\<close>, \<open>normalizeFileName\<close> and \<open>getUpdatesJsonUrl\<close> are methods of the base
  class (\<open>./abstract\<close>), whose source is not part of \<open>s3.js\<close>: they are parameters. \<open>host\<close> is the
  platform whose conventions \<open>path.basename\<close> follows. A build is a JavaScript value.
\<close>

record env =
  host :: platform
  getBuildId :: "jsval \<Rightarrow> string"
  normalizeFileName :: "string \<Rightarrow> string"
  getUpdatesJsonUrl :: string

definition getRemoteFilePath :: "env \<Rightarrow> string \<Rightarrow> jsval \<Rightarrow> string" where
  "getRemoteFilePath env localFilePath build =
     path_posix_join
       [getBuildId env build, normalizeFileName env (path_basename (host env) localFilePath)]"

text \<open>
  A path segment that joining leaves as it is: not empty, not \<open>.\<close> or \<open>..\<close>, without
  a slash.
\<close>

definition plain_segment :: "string \<Rightarrow> bool" where
  "plain_segment seg = (seg \<noteq> [] \<and> seg \<noteq> ''.'' \<and> seg \<noteq> ''..'' \<and> CHR ''/'' \<notin> set seg)"

section \<open>Listing responses and the pattern of build identifiers\<close>

record s3_object =
  Key :: string

record list_response =
  Contents :: "s3_object list"

text \<open>
  The regular expression \<open>/^\w+-\w+-\w+-[\w.]+$/\<close> as a sequence of pieces, each one
  character class taken once or one or more times. \<open>\w\<close> is a letter, a digit or
  the underscore. With both anchors and no flags the expression matches a string iff the
  pieces consume the whole string, which \<open>match_pieces\<close> decides by trying every way
  to end a repetition.
\<close>

datatype char_class = Word | Hyphen | WordOrDot

datatype piece = Once char_class | OneOrMore char_class

definition is_word :: "char \<Rightarrow> bool" where
  "is_word c =
     (c \<in> set ''ABCDEFGHIJKLMNOPQRSTUVWXYZabcdefghijklmnopqrstuvwxyz0123456789_'')"

fun in_class :: "char_class \<Rightarrow> char \<Rightarrow> bool" where
  "in_class Word c = is_word c"
| "in_class Hyphen c = (c = CHR ''-'')"
| "in_class WordOrDot c = (is_word c \<or> c = CHR ''.'')"

fun match_pieces :: "piece list \<Rightarrow> string \<Rightarrow> bool" where
  "match_pieces [] s = (s = [])"
| "match_pieces (Once cl # ps) [] = False"
| "match_pieces (Once cl # ps) (c # cs) = (in_class cl c \<and> match_pieces ps cs)"
| "match_pieces (OneOrMore cl # ps) [] = False"
| "match_pieces (OneOrMore cl # ps) (c # cs) =
     (in_class cl c \<and> (match_pieces (OneOrMore cl # ps) cs \<or> match_pieces ps cs))"

definition build_pattern :: "piece list" where
  "build_pattern =
     [OneOrMore Word, Once Hyphen, OneOrMore Word, Once Hyphen, OneOrMore Word, Once Hyphen,
      OneOrMore WordOrDot]"

text \<open>\<open>self.indexOf(item)\<close>: the first position of the item, or \<open>-1\<close>.\<close>

fun indexOf :: "'a list \<Rightarrow> 'a \<Rightarrow> int" where
  "indexOf [] item = - 1"
| "indexOf (x # xs) item =
     (if x = item then 0
      else (let i = indexOf xs item in if i = - 1 then - 1 else i + 1))"

text \<open>\<open>self.filter((item, pos, self) => p(item, pos, self))\<close>.\<close>

definition filter_pos :: "('a \<Rightarrow> nat \<Rightarrow> 'a list \<Rightarrow> bool) \<Rightarrow> 'a list \<Rightarrow> 'a list" where
  "filter_pos p self =
     map fst (filter (\<lambda>(item, pos). p item pos self) (zip self [0..<length self]))"

text \<open>The callback of \<open>fetchBuildsList\<close> that receives the listing.\<close>

definition fetchBuildsList_then :: "list_response \<Rightarrow> string list" where
  "fetchBuildsList_then response =
     filter_pos (\<lambda>item pos self. indexOf self item = int pos)
       (filter (\<lambda>key. match_pieces build_pattern key)
          (map (\<lambda>key. hd (js_split key CHR ''/''))
             (map Key (Contents response))))"

text \<open>\<open>key.startsWith(buildId)\<close>.\<close>

definition startsWith :: "string \<Rightarrow> string \<Rightarrow> bool" where
  "startsWith key buildId = (take (length buildId) key = buildId)"

text \<open>The callbacks of \<open>removeBuild\<close>: the keys kept, and the objects of the delete request.\<close>

definition removeBuild_keys :: "string \<Rightarrow> list_response \<Rightarrow> string list" where
  "removeBuild_keys buildId response =
     filter (\<lambda>key. startsWith key buildId) (map Key (Contents response))"

definition removeBuild_objects :: "string list \<Rightarrow> s3_object list" where
  "removeBuild_objects keys = map (\<lambda>key. \<lparr>Key = key\<rparr>) keys"

subsection \<open>The same, in the words of the specification\<close>

text \<open>The first path segment of a key: what stands before its first slash.\<close>

definition first_segment :: "string \<Rightarrow> string" where
  "first_segment key = takeWhile (\<lambda>c. c \<noteq> CHR ''/'') key"

text \<open>
  A build identifier: four segments joined by hyphens, the first three non-empty words,
  the last a non-empty run of word characters and dots.
\<close>

definition is_build_identifier :: "string \<Rightarrow> bool" where
  "is_build_identifier s =
     (case js_split s CHR ''-'' of
        [a, b, c, d] \<Rightarrow>
          a \<noteq> [] \<and> list_all is_word a \<and> b \<noteq> [] \<and> list_all is_word b \<and>
          c \<noteq> [] \<and> list_all is_word c \<and>
          d \<noteq> [] \<and> list_all (\<lambda>x. is_word x \<or> x = CHR ''.'') d
      | _ \<Rightarrow> False)"

text \<open>Deduplication keeping the first occurrence of every element, in order.\<close>

fun first_seen :: "'a list \<Rightarrow> 'a list \<Rightarrow> 'a list" where
  "first_seen seen [] = []"
| "first_seen seen (x # xs) =
     (if x \<in> set seen then first_seen seen xs else x # first_seen (x # seen) xs)"

section \<open>The transport at run time\<close>

text \<open>
  The storage client is outside the program: the model records every request the
  transport sends, in order and with who sent it, and takes the answers as events.
  A promise is a state that the answers advance. \<open>this.q\<close> is the promise that
  \<open>createBucket\<close> returned to \<open>init\<close>; the promises made so far are kept in a list
  and named by their position, so that a second \<open>init\<close> makes a second promise.
  The body of an upload is the stream of the local file, the body of the manifest is
  the pretty-printed JSON of the data; neither is looked into. The progress reports of
  an upload (\<open>setProgress\<close>) send nothing to the storage and are left out.
\<close>

type_synonym s3_error = string

datatype body = ReadStream string | PrettyJson jsval

datatype s3_call =
    HeadBucket jsval
  | CreateBucket jsval
  | PutObject string body jsval string
  | ListObjectsV2 jsval
  | DeleteObjects jsval "s3_object list"

datatype issuer = ByInit nat | ByTask nat

text \<open>
  The promise of \<open>createBucket(bucketOptions)\<close>: \<open>headBucket\<close> is in flight; its
  failure was caught and \<open>createBucket\<close> is in flight; fulfilled; rejected.
\<close>

datatype provisioning =
    AwaitHead jsval
  | AwaitCreate
  | Provisioned
  | ProvisionFailed s3_error

datatype operation =
    UploadFile string jsval
  | PushUpdatesJson jsval
  | FetchBuildsList
  | RemoveBuild jsval

text \<open>What an operation's promise is fulfilled with.\<close>

datatype outcome = Url string | Builds "string list" | DeleteData

text \<open>
  The first callback an operation passes to \<open>this.q.then\<close>, with the constants it
  closes over (computed when the operation is called).
\<close>

datatype callback =
    UploadCb string string jsval
  | PushCb jsval jsval
  | FetchCb jsval
  | RemoveCb string jsval

text \<open>How far the promise chain of one operation has come.\<close>

datatype stage =
    OnQ callback
  | PutSent outcome
  | ListSentFetch
  | ListSentRemove string jsval
  | DeleteSent
  | Fulfilled outcome
  | Rejected s3_error

text \<open>
  A call of an operation either threw before it returned, or returned a promise chained
  to the promise that \<open>this.q\<close> held at the call.
\<close>

datatype task = Thrown js_error | Chained nat stage

record world =
  this_options :: props
  aws_config :: jsval
  this_s3 :: bool
  this_q :: "nat option"
  promises :: "provisioning list"
  tasks :: "task list"
  calls :: "(issuer \<times> s3_call) list"

text \<open>The constructor: \<open>super(options)\<close>, then \<open>normalizeOptions\<close>. No request is sent.\<close>

definition S3Transport :: "jsval \<Rightarrow> props \<Rightarrow> js_error + world" where
  "S3Transport packageJson_name options =
     (case normalizeOptions packageJson_name options of
        Inl e \<Rightarrow> Inl e
      | Inr options' \<Rightarrow>
          Inr \<lparr>this_options = options', aws_config = JUndefined, this_s3 = False,
               this_q = None, promises = [], tasks = [], calls = []\<rparr>)"

definition lookup :: "'a list \<Rightarrow> nat \<Rightarrow> 'a option" where
  "lookup xs i = (if i < length xs then Some (xs ! i) else None)"

text \<open>
  \<open>init\<close>. \<open>createBucket\<close> reads \<open>bucketOptions.Bucket\<close> and sends \<open>headBucket\<close>;
  the promise it returns becomes \<open>this.q\<close>. If the read throws, \<open>this.q\<close> is not
  assigned.
\<close>

definition init :: "world \<Rightarrow> world" where
  "init w =
     (let w1 = w\<lparr>aws_config := get_prop (this_options w) ''aws'', this_s3 := True\<rparr>;
          bucketOptions = get_prop (this_options w) ''bucket''
      in case read_member bucketOptions ''Bucket'' of
           Inl e \<Rightarrow> w1
         | Inr b \<Rightarrow>
             w1\<lparr>this_q := Some (length (promises w)),
                promises := promises w @ [AwaitHead bucketOptions],
                calls := calls w @ [(ByInit (length (promises w)), HeadBucket b)]\<rparr>)"

text \<open>The answer to \<open>headBucket\<close>: a failure runs the \<open>catch\<close> handler, which sends \<open>createBucket\<close>.\<close>

definition headBucket_done :: "nat \<Rightarrow> s3_error option \<Rightarrow> world \<Rightarrow> world" where
  "headBucket_done p r w =
     (case lookup (promises w) p of
        Some (AwaitHead bucketOptions) \<Rightarrow>
          (case r of
             None \<Rightarrow> w\<lparr>promises := (promises w)[p := Provisioned]\<rparr>
           | Some e \<Rightarrow>
               w\<lparr>promises := (promises w)[p := AwaitCreate],
                 calls := calls w @ [(ByInit p, CreateBucket bucketOptions)]\<rparr>)
      | _ \<Rightarrow> w)"

definition createBucket_done :: "nat \<Rightarrow> s3_error option \<Rightarrow> world \<Rightarrow> world" where
  "createBucket_done p r w =
     (case lookup (promises w) p of
        Some AwaitCreate \<Rightarrow>
          (case r of
             None \<Rightarrow> w\<lparr>promises := (promises w)[p := Provisioned]\<rparr>
           | Some e \<Rightarrow> w\<lparr>promises := (promises w)[p := ProvisionFailed e]\<rparr>)
      | _ \<Rightarrow> w)"

text \<open>
  A call of a public operation: the constants are computed, then \<open>this.q.then(...)\<close>
  registers the callback. Before \<open>init\<close>, \<open>this.q\<close> is \<open>undefined\<close> and the call throws.
\<close>

definition callback_of :: "env \<Rightarrow> operation \<Rightarrow> jsval \<Rightarrow> callback" where
  "callback_of env op bucket =
     (case op of
        UploadFile filePath build \<Rightarrow> UploadCb filePath (getRemoteFilePath env filePath build) bucket
      | PushUpdatesJson data \<Rightarrow> PushCb data bucket
      | FetchBuildsList \<Rightarrow> FetchCb bucket
      | RemoveBuild build \<Rightarrow> RemoveCb (getBuildId env build) bucket)"

definition call :: "env \<Rightarrow> operation \<Rightarrow> world \<Rightarrow> world" where
  "call env op w =
     (case read_member (get_prop (this_options w) ''bucket'') ''Bucket'' of
        Inl e \<Rightarrow> w\<lparr>tasks := tasks w @ [Thrown e]\<rparr>
      | Inr bucket \<Rightarrow>
          (case this_q w of
             None \<Rightarrow>
               w\<lparr>tasks := tasks w @ [Thrown (TypeError ''Cannot read property then of undefined'')]\<rparr>
           | Some p \<Rightarrow> w\<lparr>tasks := tasks w @ [Chained p (OnQ (callback_of env op bucket))]\<rparr>))"

text \<open>
  The callback registered on \<open>this.q\<close> runs once that promise is fulfilled, and sends the
  operation's first request. If the promise is rejected the callback is skipped and the
  rejection passes down the chain. While the promise is pending nothing happens.
\<close>

definition run_callback :: "env \<Rightarrow> callback \<Rightarrow> s3_call \<times> stage" where
  "run_callback env cb =
     (case cb of
        UploadCb filePath remotePath bucket \<Rightarrow>
          (PutObject ''public-read'' (ReadStream filePath) bucket remotePath,
           PutSent (Url (''https://'' @ toString bucket @ ''.s3.amazonaws.com/'' @ remotePath)))
      | PushCb data bucket \<Rightarrow>
          (PutObject ''public-read'' (PrettyJson data) bucket ''updates.json'',
           PutSent (Url (getUpdatesJsonUrl env)))
      | FetchCb bucket \<Rightarrow> (ListObjectsV2 bucket, ListSentFetch)
      | RemoveCb buildId bucket \<Rightarrow> (ListObjectsV2 bucket, ListSentRemove buildId bucket))"

definition q_then :: "env \<Rightarrow> nat \<Rightarrow> world \<Rightarrow> world" where
  "q_then env t w =
     (case lookup (tasks w) t of
        Some (Chained p (OnQ cb)) \<Rightarrow>
          (case lookup (promises w) p of
             Some Provisioned \<Rightarrow>
               w\<lparr>tasks := (tasks w)[t := Chained p (snd (run_callback env cb))],
                 calls := calls w @ [(ByTask t, fst (run_callback env cb))]\<rparr>
           | Some (ProvisionFailed e) \<Rightarrow> w\<lparr>tasks := (tasks w)[t := Chained p (Rejected e)]\<rparr>
           | _ \<Rightarrow> w)
      | _ \<Rightarrow> w)"

text \<open>The answer to \<open>putObject\<close> settles \<open>uploadFile\<close> and \<open>pushUpdatesJson\<close>.\<close>

definition putObject_done :: "nat \<Rightarrow> s3_error option \<Rightarrow> world \<Rightarrow> world" where
  "putObject_done t r w =
     (case lookup (tasks w) t of
        Some (Chained p (PutSent v)) \<Rightarrow>
          (case r of
             None \<Rightarrow> w\<lparr>tasks := (tasks w)[t := Chained p (Fulfilled v)]\<rparr>
           | Some e \<Rightarrow> w\<lparr>tasks := (tasks w)[t := Chained p (Rejected e)]\<rparr>)
      | _ \<Rightarrow> w)"

text \<open>
  The answer to \<open>listObjectsV2\<close>: \<open>fetchBuildsList\<close> computes its result from it;
  \<open>removeBuild\<close> filters the keys and sends \<open>deleteObjects\<close>.
\<close>

definition listObjects_done :: "nat \<Rightarrow> s3_error + list_response \<Rightarrow> world \<Rightarrow> world" where
  "listObjects_done t r w =
     (case lookup (tasks w) t of
        Some (Chained p ListSentFetch) \<Rightarrow>
          (case r of
             Inl e \<Rightarrow> w\<lparr>tasks := (tasks w)[t := Chained p (Rejected e)]\<rparr>
           | Inr response \<Rightarrow>
               w\<lparr>tasks := (tasks w)[t := Chained p (Fulfilled (Builds (fetchBuildsList_then response)))]\<rparr>)
      | Some (Chained p (ListSentRemove buildId bucket)) \<Rightarrow>
          (case r of
             Inl e \<Rightarrow> w\<lparr>tasks := (tasks w)[t := Chained p (Rejected e)]\<rparr>
           | Inr response \<Rightarrow>
               w\<lparr>tasks := (tasks w)[t := Chained p DeleteSent],
                 calls := calls w @
                   [(ByTask t,
                     DeleteObjects bucket (removeBuild_objects (removeBuild_keys buildId response)))]\<rparr>)
      | _ \<Rightarrow> w)"

definition deleteObjects_done :: "nat \<Rightarrow> s3_error option \<Rightarrow> world \<Rightarrow> world" where
  "deleteObjects_done t r w =
     (case lookup (tasks w) t of
        Some (Chained p DeleteSent) \<Rightarrow>
          (case r of
             None \<Rightarrow> w\<lparr>tasks := (tasks w)[t := Chained p (Fulfilled DeleteData)]\<rparr>
           | Some e \<Rightarrow> w\<lparr>tasks := (tasks w)[t := Chained p (Rejected e)]\<rparr>)
      | _ \<Rightarrow> w)"

text \<open>
  What can happen to a transport: the pipeline calls \<open>init\<close> or an operation, the
  storage service answers a request, or the event loop runs a callback that waits on
  \<open>this.q\<close>. An event that does not apply leaves the world as it is.
\<close>

datatype event =
    Init
  | Call operation
  | HeadBucketDone nat "s3_error option"
  | CreateBucketDone nat "s3_error option"
  | QThen nat
  | PutObjectDone nat "s3_error option"
  | ListObjectsDone nat "s3_error + list_response"
  | DeleteObjectsDone nat "s3_error option"

fun step :: "env \<Rightarrow> event \<Rightarrow> world \<Rightarrow> world" where
  "step env Init w = init w"
| "step env (Call op) w = call env op w"
| "step env (HeadBucketDone p r) w = headBucket_done p r w"
| "step env (CreateBucketDone p r) w = createBucket_done p r w"
| "step env (QThen t) w = q_then env t w"
| "step env (PutObjectDone t r) w = putObject_done t r w"
| "step env (ListObjectsDone t r) w = listObjects_done t r w"
| "step env (DeleteObjectsDone t r) w = deleteObjects_done t r w"

fun run :: "env \<Rightarrow> event list \<Rightarrow> world \<Rightarrow> world" where
  "run env [] w = w"
| "run env (e # es) w = run env es (step env e w)"

text \<open>The requests that one event makes the transport send.\<close>

definition issued :: "env \<Rightarrow> event \<Rightarrow> world \<Rightarrow> (issuer \<times> s3_call) list" where
  "issued env e w = drop (length (calls w)) (calls (step env e w))"

text \<open>Storage access: reading, writing or deleting objects.\<close>

fun is_access :: "s3_call \<Rightarrow> bool" where
  "is_access (PutObject _ _ _ _) = True"
| "is_access (ListObjectsV2 _) = True"
| "is_access (DeleteObjects _ _) = True"
| "is_access _ = False"

fun is_head :: "s3_call \<Rightarrow> bool" where
  "is_head (HeadBucket _) = True"
| "is_head _ = False"

fun is_create :: "s3_call \<Rightarrow> bool" where
  "is_create (CreateBucket _) = True"
| "is_create _ = False"

text \<open>The state of the provisioning promise that the operation numbered \<open>t\<close> waits on.\<close>

definition awaited :: "world \<Rightarrow> nat \<Rightarrow> provisioning option" where
  "awaited w t =
     (case lookup (tasks w) t of
        Some (Chained p st) \<Rightarrow> lookup (promises w) p
      | _ \<Rightarrow> None)"

definition count_init :: "event list \<Rightarrow> nat" where
  "count_init es = length (filter (\<lambda>e. e = Init) es)"

definition count_calls :: "(s3_call \<Rightarrow> bool) \<Rightarrow> world \<Rightarrow> nat" where
  "count_calls P w = length (filter (\<lambda>(who, c). P c) (calls w))"

text \<open>
  A stage that is reached only through the callback registered on \<open>this.q\<close>: the
  operation has sent at least one request.
\<close>

fun past_q :: "stage \<Rightarrow> bool" where
  "past_q (OnQ _) = False"
| "past_q (Rejected _) = False"
| "past_q _ = True"

text \<open>
  The invariant of the run: an operation that got past \<open>this.q\<close> waited on a promise that
  is fulfilled, and every operation waits on a promise that exists.
\<close>

definition task_ok :: "world \<Rightarrow> task \<Rightarrow> bool" where
  "task_ok w task =
     (case task of
        Thrown e \<Rightarrow> True
      | Chained p st \<Rightarrow>
          p < length (promises w) \<and> (past_q st \<longrightarrow> lookup (promises w) p = Some Provisioned))"

definition call_ok :: "world \<Rightarrow> issuer \<times> s3_call \<Rightarrow> bool" where
  "call_ok w ic =
     (case ic of
        (ByInit p, c) \<Rightarrow> \<not> is_access c
      | (ByTask t, c) \<Rightarrow>
          is_access c \<and> (\<exists>p st. lookup (tasks w) t = Some (Chained p st) \<and>
             lookup (promises w) p = Some Provisioned))"

definition run_inv :: "world \<Rightarrow> bool" where
  "run_inv w =
     (list_all (task_ok w) (tasks w) \<and> list_all (call_ok w) (calls w) \<and>
      (case this_q w of None \<Rightarrow> True | Some p \<Rightarrow> p < length (promises w)))"

fun is_await_head :: "provisioning \<Rightarrow> bool" where
  "is_await_head (AwaitHead _) = True"
| "is_await_head _ = False"

text \<open>The requests of the log that the operation numbered \<open>t\<close> sent.\<close>

definition calls_of :: "nat \<Rightarrow> world \<Rightarrow> s3_call list" where
  "calls_of t w = map snd (filter (\<lambda>(who, c). who = ByTask t) (calls w))"

text \<open>
  One world is ahead of another: no promise was lost or left the fulfilled state, and
  every operation still waits on the promise it was chained to.
\<close>

definition ahead :: "world \<Rightarrow> world \<Rightarrow> bool" where
  "ahead w w' \<longleftrightarrow>
     length (promises w) \<le> length (promises w') \<and>
     (\<forall>p. lookup (promises w) p = Some Provisioned \<longrightarrow> lookup (promises w') p = Some Provisioned) \<and>
     (\<forall>t p st. lookup (tasks w) t = Some (Chained p st) \<longrightarrow>
        (\<exists>st'. lookup (tasks w') t = Some (Chained p st')))"

text \<open>
  The bookkeeping of provisioning: one \<open>headBucket\<close> per promise, and at most one
  \<open>createBucket\<close> per promise that is past its \<open>headBucket\<close>.
\<close>

definition counted :: "world \<Rightarrow> bool" where
  "counted w \<longleftrightarrow>
     count_calls is_head w = length (promises w) \<and>
     count_calls is_create w + length (filter is_await_head (promises w)) \<le> length (promises w) \<and>
     (\<exists>b. read_member (get_prop (this_options w) ''bucket'') ''Bucket'' = Inr b)"

text \<open>An environment and a configuration for examples.\<close>

definition example_env :: env where
  "example_env =
     \<lparr>host = Posix,
      getBuildId = (\<lambda>build. toString build),
      normalizeFileName = (\<lambda>name. name),
      getUpdatesJsonUrl = ''https://myapp-updates.s3.amazonaws.com/updates.json''\<rparr>"

definition example_options :: props where
  "example_options = [''accessKeyId'' \<mapsto> JStr ''AKIA'', ''secretAccessKey'' \<mapsto> JStr ''s3cr3t'']"

definition example_world :: world where
  "example_world =
     \<lparr>this_options =
        example_options
          (''aws'' \<mapsto> JObj (merged_aws example_options),
           ''bucket'' \<mapsto> JObj [''Bucket'' \<mapsto> JStr ''myapp-updates'']),
      aws_config = JUndefined, this_s3 = False, this_q = None,
      promises = [], tasks = [], calls = []\<rparr>"

section \<open>Properties of construction\<close>

lemma get_prop_upd: "get_prop (m(k \<mapsto> v)) k' = (if k' = k then v else get_prop m k')"
  by (simp add: get_prop_def)

lemma bucket_stage_result:
  "check_bucket (coerce_bucket (default_bucket pkg opts)) = Inr opts' \<Longrightarrow>
     \<exists>b. get_prop opts' ''bucket'' = JObj b \<and> truthy (get_prop b ''Bucket'')"
  unfolding check_bucket_def coerce_bucket_def default_bucket_def
  by (cases "get_prop opts ''bucket''") (auto simp: get_prop_upd split: if_splits sum.splits)

lemma bucket_stage_accepts:
  "(\<exists>opts'. check_bucket (coerce_bucket (default_bucket pkg opts)) = Inr opts') \<longleftrightarrow>
     bucket_accepted (get_prop opts ''bucket'')"
  unfolding check_bucket_def coerce_bucket_def default_bucket_def bucket_accepted_def
  by (cases "get_prop opts ''bucket''") (auto simp: get_prop_upd split: if_splits sum.splits)

lemma normalizeOptions_Inr:
  "normalizeOptions pkg opts = Inr opts' \<Longrightarrow>
     check_set (merged_aws opts) [''accessKeyId'', ''secretAccessKey''] = None \<and>
     check_bucket (coerce_bucket (default_bucket pkg (opts(''aws'' \<mapsto> JObj (merged_aws opts))))) = Inr opts'"
  unfolding normalizeOptions_def Let_def
  by (cases "check_set (merged_aws opts) [''accessKeyId'', ''secretAccessKey'']")
    (simp_all del: check_set.simps)

lemma S3Transport_Inr:
  "S3Transport pkg opts = Inr w \<Longrightarrow>
     normalizeOptions pkg opts = Inr (this_options w) \<and> this_q w = None \<and> promises w = [] \<and>
     tasks w = [] \<and> calls w = []"
  by (auto simp: S3Transport_def split: sum.splits)

text \<open>
  Claim C4. When, after the provider options have been merged over the default auth
  object, \<open>accessKeyId\<close> or \<open>secretAccessKey\<close> is not set, the constructor throws the
  error of the first of the two that is missing, whatever the rest of the configuration
  is. It returns no transport, and only a transport sends requests: nothing has reached
  the network.
\<close>

theorem missing_credentials_rejected:
  assumes "\<not> truthy (get_prop (merged_aws opts) ''accessKeyId'') \<or>
           \<not> truthy (get_prop (merged_aws opts) ''secretAccessKey'')"
  shows "S3Transport pkg opts =
     Inl (Error (if \<not> truthy (get_prop (merged_aws opts) ''accessKeyId'')
                 then ''The transport.accessKeyId option is not set''
                 else ''The transport.secretAccessKey option is not set''))"
  using assms by (auto simp: S3Transport_def normalizeOptions_def)

theorem missing_credentials_rejected_witness:
  "S3Transport (JStr ''myapp'')
     [''secretAccessKey'' \<mapsto> JStr ''s3cr3t'', ''bucket'' \<mapsto> JStr ''foo''] =
     Inl (Error ''The transport.accessKeyId option is not set'') \<and>
   S3Transport (JStr ''myapp'')
     [''accessKeyId'' \<mapsto> JStr ''AKIA'', ''aws'' \<mapsto> JObj [''region'' \<mapsto> JStr ''eu-west-1'']] =
     Inl (Error ''The transport.secretAccessKey option is not set'')"
  using missing_credentials_rejected
      [of "[''secretAccessKey'' \<mapsto> JStr ''s3cr3t'', ''bucket'' \<mapsto> JStr ''foo'']" "JStr ''myapp''"]
    missing_credentials_rejected
      [of "[''accessKeyId'' \<mapsto> JStr ''AKIA'', ''aws'' \<mapsto> JObj [''region'' \<mapsto> JStr ''eu-west-1'']]"
          "JStr ''myapp''"]
  by (simp add: merged_aws_def awsAuth_def get_prop_def)

lemma bucket_stage_string:
  "check_bucket (coerce_bucket (default_bucket pkg opts)) = Inr opts' \<Longrightarrow>
   get_prop opts ''bucket'' = JStr name \<Longrightarrow> name \<noteq> [] \<Longrightarrow>
     get_prop opts' ''bucket'' = JObj [''Bucket'' \<mapsto> JStr name]"
  by (auto simp: check_bucket_def coerce_bucket_def default_bucket_def get_prop_upd
      split: if_splits sum.splits)

lemma bucket_stage_default:
  "check_bucket (coerce_bucket (default_bucket pkg opts)) = Inr opts' \<Longrightarrow>
   \<not> truthy (get_prop opts ''bucket'') \<Longrightarrow>
     get_prop opts' ''bucket'' = JObj [''Bucket'' \<mapsto> JStr (toString pkg @ ''-updates'')]"
  by (auto simp: check_bucket_def coerce_bucket_def default_bucket_def get_prop_upd
      split: if_splits sum.splits)

lemma bucket_stage_no_name:
  "get_prop opts ''bucket'' = JObj b \<Longrightarrow> \<not> truthy (get_prop b ''Bucket'') \<Longrightarrow>
     check_bucket (coerce_bucket (default_bucket pkg opts)) =
       Inl (Error ''The transport.bucket option is not set'')"
  by (auto simp: check_bucket_def coerce_bucket_def default_bucket_def get_prop_upd
      split: if_splits sum.splits)

lemma normalizeOptions_bucket_stage:
  "check_set (merged_aws opts) [''accessKeyId'', ''secretAccessKey''] = None \<Longrightarrow>
     normalizeOptions pkg opts =
       check_bucket (coerce_bucket (default_bucket pkg (opts(''aws'' \<mapsto> JObj (merged_aws opts)))))"
  unfolding normalizeOptions_def Let_def by (simp del: check_set.simps)

lemma get_prop_aws_upd:
  "get_prop (opts(''aws'' \<mapsto> v)) ''bucket'' = get_prop opts ''bucket''"
  by (simp add: get_prop_upd)

lemma bucket_stage_typed:
  "check_bucket (coerce_bucket (default_bucket pkg opts)) = Inr opts' \<Longrightarrow>
   bucket_schema (get_prop opts ''bucket'') \<Longrightarrow>
     \<exists>b name. get_prop opts' ''bucket'' = JObj b \<and> get_prop b ''Bucket'' = JStr name \<and> name \<noteq> []"
  unfolding check_bucket_def coerce_bucket_def default_bucket_def bucket_schema_def
  by (cases "get_prop opts ''bucket''")
    (auto simp: get_prop_upd split: if_splits sum.splits jsval.splits)

text \<open>
  Claim C5. After a successful construction \<open>this.options.bucket\<close> is an object whose
  \<open>Bucket\<close> is set (a non-empty string whenever the option had its documented type):
  a non-empty bucket string \<open>name\<close> has become \<open>{ Bucket: name }\<close>, a missing bucket
  has become \<open>{ Bucket: packageJson.name + '-updates' }\<close>. With the credentials set,
  a bucket object without a \<open>Bucket\<close>, such as \<open>{}\<close>, makes the constructor throw.
\<close>

theorem bucket_normalized:
  "(S3Transport pkg opts = Inr w \<longrightarrow>
      (\<exists>b. get_prop (this_options w) ''bucket'' = JObj b \<and> truthy (get_prop b ''Bucket'') \<and>
           (\<forall>name. get_prop b ''Bucket'' = JStr name \<longrightarrow> name \<noteq> [])) \<and>
      (\<forall>name. get_prop opts ''bucket'' = JStr name \<and> name \<noteq> [] \<longrightarrow>
           get_prop (this_options w) ''bucket'' = JObj [''Bucket'' \<mapsto> JStr name]) \<and>
      (opts ''bucket'' = None \<longrightarrow>
           get_prop (this_options w) ''bucket'' =
             JObj [''Bucket'' \<mapsto> JStr (toString pkg @ ''-updates'')]) \<and>
      (bucket_schema (get_prop opts ''bucket'') \<longrightarrow>
           (\<exists>b name. get_prop (this_options w) ''bucket'' = JObj b \<and>
              get_prop b ''Bucket'' = JStr name \<and> name \<noteq> []))) \<and>
   (check_set (merged_aws opts) [''accessKeyId'', ''secretAccessKey''] = None \<and>
    get_prop opts ''bucket'' = JObj descriptor \<and> \<not> truthy (get_prop descriptor ''Bucket'') \<longrightarrow>
      S3Transport pkg opts = Inl (Error ''The transport.bucket option is not set''))"
proof (intro conjI impI allI)
  let ?o1 = "opts(''aws'' \<mapsto> JObj (merged_aws opts))"
  {
    assume "S3Transport pkg opts = Inr w"
    then have "normalizeOptions pkg opts = Inr (this_options w)"
      by (simp add: S3Transport_Inr)
    then have b: "check_bucket (coerce_bucket (default_bucket pkg ?o1)) = Inr (this_options w)"
      by (simp add: normalizeOptions_Inr)
    from bucket_stage_result [OF b]
    show "\<exists>b. get_prop (this_options w) ''bucket'' = JObj b \<and> truthy (get_prop b ''Bucket'') \<and>
           (\<forall>name. get_prop b ''Bucket'' = JStr name \<longrightarrow> name \<noteq> [])"
      by auto
    show "get_prop (this_options w) ''bucket'' = JObj [''Bucket'' \<mapsto> JStr name]"
      if "get_prop opts ''bucket'' = JStr name \<and> name \<noteq> []" for name
      using bucket_stage_string [OF b, of name] that by (simp add: get_prop_aws_upd)
    show "get_prop (this_options w) ''bucket'' =
        JObj [''Bucket'' \<mapsto> JStr (toString pkg @ ''-updates'')]"
      if "opts ''bucket'' = None"
    proof -
      from that have "\<not> truthy (get_prop ?o1 ''bucket'')"
        by (simp add: get_prop_def)
      then show ?thesis by (rule bucket_stage_default [OF b])
    qed
    show "\<exists>b name. get_prop (this_options w) ''bucket'' = JObj b \<and>
        get_prop b ''Bucket'' = JStr name \<and> name \<noteq> []"
      if "bucket_schema (get_prop opts ''bucket'')"
      using bucket_stage_typed [OF b] that by (simp add: get_prop_aws_upd)
  }
  assume a: "check_set (merged_aws opts) [''accessKeyId'', ''secretAccessKey''] = None \<and>
    get_prop opts ''bucket'' = JObj descriptor \<and> \<not> truthy (get_prop descriptor ''Bucket'')"
  then have "normalizeOptions pkg opts = check_bucket (coerce_bucket (default_bucket pkg ?o1))"
    by (simp add: normalizeOptions_bucket_stage del: check_set.simps)
  moreover have "check_bucket (coerce_bucket (default_bucket pkg ?o1)) =
      Inl (Error ''The transport.bucket option is not set'')"
    using a by (intro bucket_stage_no_name [of _ descriptor]) (simp_all add: get_prop_aws_upd)
  ultimately show "S3Transport pkg opts = Inl (Error ''The transport.bucket option is not set'')"
    by (simp add: S3Transport_def)
qed

theorem bucket_normalized_witness:
  "(\<exists>w. S3Transport (JStr ''myapp'') [''accessKeyId'' \<mapsto> JStr ''AKIA'', ''secretAccessKey'' \<mapsto> JStr ''s3cr3t''] = Inr w \<and>
      get_prop (this_options w) ''bucket'' = JObj [''Bucket'' \<mapsto> JStr ''myapp-updates'']) \<and>
   (\<exists>w. S3Transport (JStr ''myapp'') [''accessKeyId'' \<mapsto> JStr ''AKIA'', ''secretAccessKey'' \<mapsto> JStr ''s3cr3t'', ''bucket'' \<mapsto> JStr ''foo''] = Inr w \<and>
      get_prop (this_options w) ''bucket'' = JObj [''Bucket'' \<mapsto> JStr ''foo'']) \<and>
   S3Transport (JStr ''myapp'') [''accessKeyId'' \<mapsto> JStr ''AKIA'', ''secretAccessKey'' \<mapsto> JStr ''s3cr3t'', ''bucket'' \<mapsto> JObj Map.empty] =
     Inl (Error ''The transport.bucket option is not set'')"
proof -
  let ?a = "[''accessKeyId'' \<mapsto> JStr ''AKIA'', ''secretAccessKey'' \<mapsto> JStr ''s3cr3t'']"
  let ?b = "[''accessKeyId'' \<mapsto> JStr ''AKIA'', ''secretAccessKey'' \<mapsto> JStr ''s3cr3t'', ''bucket'' \<mapsto> JStr ''foo'']"
  let ?c = "[''accessKeyId'' \<mapsto> JStr ''AKIA'', ''secretAccessKey'' \<mapsto> JStr ''s3cr3t'', ''bucket'' \<mapsto> JObj Map.empty]"
  have creds: "check_set (merged_aws ?a) [''accessKeyId'', ''secretAccessKey''] = None"
    "check_set (merged_aws ?b) [''accessKeyId'', ''secretAccessKey''] = None"
    "check_set (merged_aws ?c) [''accessKeyId'', ''secretAccessKey''] = None"
    by (simp_all add: merged_aws_def awsAuth_def get_prop_def)
  obtain wa where wa: "S3Transport (JStr ''myapp'') ?a = Inr wa"
    by (simp add: S3Transport_def normalizeOptions_bucket_stage [OF creds(1)] check_bucket_def
        coerce_bucket_def default_bucket_def get_prop_def)
  obtain wb where wb: "S3Transport (JStr ''myapp'') ?b = Inr wb"
    by (simp add: S3Transport_def normalizeOptions_bucket_stage [OF creds(2)] check_bucket_def
        coerce_bucket_def default_bucket_def get_prop_def)
  have "get_prop (this_options wa) ''bucket'' = JObj [''Bucket'' \<mapsto> JStr ''myapp-updates'']"
    using bucket_normalized [of "JStr ''myapp''" ?a wa] wa by simp
  moreover have "get_prop (this_options wb) ''bucket'' = JObj [''Bucket'' \<mapsto> JStr ''foo'']"
    using bucket_normalized [of "JStr ''myapp''" ?b wb] wb by (simp add: get_prop_def)
  moreover have "S3Transport (JStr ''myapp'') ?c = Inl (Error ''The transport.bucket option is not set'')"
    using bucket_normalized [of "JStr ''myapp''" ?c _ Map.empty] creds(3)
    by (simp add: get_prop_def del: check_set.simps)
  ultimately show ?thesis using wa wb by simp
qed


lemma merged_aws_override:
  "get_prop opts ''aws'' = JObj aws \<Longrightarrow> truthy (get_prop aws name) \<Longrightarrow>
     get_prop (merged_aws opts) name = get_prop aws name"
  by (auto simp: merged_aws_def get_prop_def map_add_def split: option.splits)

text \<open>
  Claim C10. When \<open>options.aws\<close> is an object that itself holds \<open>accessKeyId\<close> and
  \<open>secretAccessKey\<close>, both set, these are the merged credentials whatever the
  top-level fields are (also when they are absent), neither credential error is thrown,
  and the constructor succeeds for every bucket option that the bucket steps accept.
\<close>

theorem provider_credentials_override:
  assumes "get_prop opts ''aws'' = JObj aws"
    and "truthy (get_prop aws ''accessKeyId'')"
    and "truthy (get_prop aws ''secretAccessKey'')"
  shows "get_prop (merged_aws opts) ''accessKeyId'' = get_prop aws ''accessKeyId'' \<and>
         get_prop (merged_aws opts) ''secretAccessKey'' = get_prop aws ''secretAccessKey'' \<and>
         S3Transport pkg opts \<noteq> Inl (Error ''The transport.accessKeyId option is not set'') \<and>
         S3Transport pkg opts \<noteq> Inl (Error ''The transport.secretAccessKey option is not set'') \<and>
         (bucket_accepted (get_prop opts ''bucket'') \<longrightarrow>
            (\<exists>w. S3Transport pkg opts = Inr w \<and>
                 get_prop (this_options w) ''aws'' = JObj (merged_aws opts)))"
proof -
  let ?o1 = "opts(''aws'' \<mapsto> JObj (merged_aws opts))"
  have k: "get_prop (merged_aws opts) ''accessKeyId'' = get_prop aws ''accessKeyId''"
    and s: "get_prop (merged_aws opts) ''secretAccessKey'' = get_prop aws ''secretAccessKey''"
    using assms by (simp_all add: merged_aws_override)
  with assms have "check_set (merged_aws opts) [''accessKeyId'', ''secretAccessKey''] = None"
    by simp
  then have n: "normalizeOptions pkg opts = check_bucket (coerce_bucket (default_bucket pkg ?o1))"
    by (rule normalizeOptions_bucket_stage)
  have e: "check_bucket (coerce_bucket (default_bucket pkg ?o1)) \<noteq> Inl (Error (''The transport.'' @ x @ '' option is not set''))"
    if "x \<noteq> ''bucket''" for x
    using that
    by (auto simp: check_bucket_def coerce_bucket_def default_bucket_def get_prop_upd
        split: if_splits sum.splits elim!: read_member.elims)
  have ok: "\<exists>w. S3Transport pkg opts = Inr w \<and> get_prop (this_options w) ''aws'' = JObj (merged_aws opts)"
    if "bucket_accepted (get_prop opts ''bucket'')"
  proof -
    from that have "bucket_accepted (get_prop ?o1 ''bucket'')"
      by (simp add: get_prop_aws_upd)
    then obtain opts' where o: "check_bucket (coerce_bucket (default_bucket pkg ?o1)) = Inr opts'"
      using bucket_stage_accepts [of pkg ?o1] by blast
    then have "get_prop opts' ''aws'' = JObj (merged_aws opts)"
      by (auto simp: check_bucket_def coerce_bucket_def default_bucket_def get_prop_upd
          split: if_splits sum.splits)
    with o n show ?thesis by (simp add: S3Transport_def)
  qed
  from e [of "''accessKeyId''"] e [of "''secretAccessKey''"] n k s ok show ?thesis
    by (auto simp: S3Transport_def split: sum.splits)
qed

theorem provider_credentials_override_witness:
  "\<exists>w. S3Transport (JStr ''myapp'')
          [''aws'' \<mapsto> JObj [''accessKeyId'' \<mapsto> JStr ''AKIA'', ''secretAccessKey'' \<mapsto> JStr ''s3cr3t'']] = Inr w"
  using provider_credentials_override
    [of "[''aws'' \<mapsto> JObj [''accessKeyId'' \<mapsto> JStr ''AKIA'', ''secretAccessKey'' \<mapsto> JStr ''s3cr3t'']]"
        "[''accessKeyId'' \<mapsto> JStr ''AKIA'', ''secretAccessKey'' \<mapsto> JStr ''s3cr3t'']" "JStr ''myapp''"]
  by (auto simp: get_prop_def bucket_accepted_def)


section \<open>Properties of listing and selecting keys\<close>

lemma js_split_not_Nil: "js_split s c \<noteq> []"
  by (induction s) (auto split: list.splits)

lemma hd_js_split: "hd (js_split s c) = takeWhile (\<lambda>x. x \<noteq> c) s"
  by (induction s) (auto split: list.splits simp: js_split_not_Nil)

lemma js_split_no_sep: "c \<notin> set a \<Longrightarrow> js_split a c = [a]"
  by (induction a) auto

lemma js_split_append: "c \<notin> set a \<Longrightarrow> js_split (a @ c # rest) c = a # js_split rest c"
  by (induction a) auto

lemma js_split_ConsD:
  "js_split s c = a # b # bs \<Longrightarrow> \<exists>rest. s = a @ c # rest \<and> c \<notin> set a \<and> js_split rest c = b # bs"
proof (induction s arbitrary: a)
  case Nil
  then show ?case by simp
next
  case (Cons x xs)
  show ?case
  proof (cases "x = c")
    case True
    with Cons.prems show ?thesis by auto
  next
    case False
    with Cons.prems obtain y where y: "js_split xs c = y # b # bs" and a: "a = x # y"
      by (auto split: list.splits simp: js_split_not_Nil)
    from Cons.IH [OF y] obtain rest where "xs = y @ c # rest" "c \<notin> set y" "js_split rest c = b # bs"
      by blast
    with a False show ?thesis by auto
  qed
qed

lemma js_split_singleD: "js_split s c = [a] \<Longrightarrow> s = a \<and> c \<notin> set a"
proof (induction s arbitrary: a)
  case Nil
  then show ?case by auto
next
  case (Cons x xs)
  show ?case
  proof (cases "x = c")
    case True
    with Cons.prems show ?thesis by (simp add: js_split_not_Nil)
  next
    case False
    with Cons.prems obtain y where y: "js_split xs c = [y]" and a: "a = x # y"
      by (auto split: list.splits simp: js_split_not_Nil)
    from Cons.IH [OF y] a False show ?thesis by auto
  qed
qed

lemma match_plus_last:
  "match_pieces [OneOrMore cl] s \<longleftrightarrow> s \<noteq> [] \<and> list_all (in_class cl) s"
  by (induction s) auto

lemma match_plus_hyphen: "match_pieces (OneOrMore cl # Once Hyphen # ps) s \<longleftrightarrow>
     (\<exists>a rest. s = a @ CHR ''-'' # rest \<and> a \<noteq> [] \<and> list_all (in_class cl) a \<and> match_pieces ps rest)"
proof (induction s)
  case Nil
  then show ?case by simp
next
  case (Cons x xs)
  note IH = Cons.IH
  show ?case
  proof
    assume m: "match_pieces (OneOrMore cl # Once Hyphen # ps) (x # xs)"
    then have x: "in_class cl x" by simp
    from m have "match_pieces (OneOrMore cl # Once Hyphen # ps) xs \<or> match_pieces (Once Hyphen # ps) xs"
      by simp
    then show "\<exists>a rest. x # xs = a @ CHR ''-'' # rest \<and> a \<noteq> [] \<and> list_all (in_class cl) a \<and> match_pieces ps rest"
    proof
      assume "match_pieces (OneOrMore cl # Once Hyphen # ps) xs"
      with IH obtain a rest where "xs = a @ CHR ''-'' # rest" "list_all (in_class cl) a" "match_pieces ps rest"
        by blast
      with x show ?thesis
        by (intro exI [of _ "x # a"] exI [of _ rest]) simp
    next
      assume "match_pieces (Once Hyphen # ps) xs"
      then obtain rest where "xs = CHR ''-'' # rest" "match_pieces ps rest"
        by (cases xs) auto
      with x show ?thesis
        by (intro exI [of _ "[x]"] exI [of _ rest]) simp
    qed
  next
    assume "\<exists>a rest. x # xs = a @ CHR ''-'' # rest \<and> a \<noteq> [] \<and> list_all (in_class cl) a \<and> match_pieces ps rest"
    then obtain a rest where s: "x # xs = a @ CHR ''-'' # rest" and a: "a \<noteq> []" "list_all (in_class cl) a"
      and r: "match_pieces ps rest" by blast
    from a s obtain a' where a': "a = x # a'" by (cases a) auto
    show "match_pieces (OneOrMore cl # Once Hyphen # ps) (x # xs)"
    proof (cases a')
      case Nil
      with a' s a r show ?thesis by auto
    next
      case (Cons y ys)
      with a' s a r have "\<exists>a rest. xs = a @ CHR ''-'' # rest \<and> a \<noteq> [] \<and>
          list_all (in_class cl) a \<and> match_pieces ps rest"
        by (intro exI [of _ "y # ys"] exI [of _ rest]) simp
      with IH have "match_pieces (OneOrMore cl # Once Hyphen # ps) xs"
        by simp
      with a' a show ?thesis by simp
    qed
  qed
qed

lemma not_word_hyphen: "\<not> is_word CHR ''-''"
  by (simp add: is_word_def)

lemma word_no_hyphen: "list_all (in_class Word) a \<Longrightarrow> CHR ''-'' \<notin> set a"
  by (auto simp: list_all_iff not_word_hyphen)

lemma word_or_dot_no_hyphen: "list_all (in_class WordOrDot) a \<Longrightarrow> CHR ''-'' \<notin> set a"
  by (auto simp: list_all_iff not_word_hyphen)

lemma build_pattern_iff: "match_pieces build_pattern s \<longleftrightarrow> is_build_identifier s"
proof -
  let ?parts = "\<lambda>a b c d. a \<noteq> [] \<and> list_all (in_class Word) a \<and> b \<noteq> [] \<and> list_all (in_class Word) b \<and>
         c \<noteq> [] \<and> list_all (in_class Word) c \<and> d \<noteq> [] \<and> list_all (in_class WordOrDot) d"
  have m: "match_pieces build_pattern s \<longleftrightarrow>
      (\<exists>a b c d. s = a @ CHR ''-'' # b @ CHR ''-'' # c @ CHR ''-'' # d \<and> ?parts a b c d)"
    unfolding build_pattern_def
    by (simp add: match_plus_hyphen match_plus_last) blast
  have i: "is_build_identifier s \<longleftrightarrow> (\<exists>a b c d. js_split s CHR ''-'' = [a, b, c, d] \<and> ?parts a b c d)"
    unfolding is_build_identifier_def
    by (auto split: list.splits simp: list_all_iff)
  show ?thesis
  proof
    assume "match_pieces build_pattern s"
    with m obtain a b c d where s: "s = a @ CHR ''-'' # b @ CHR ''-'' # c @ CHR ''-'' # d"
      and p: "?parts a b c d" by blast
    from p have "CHR ''-'' \<notin> set a" "CHR ''-'' \<notin> set b" "CHR ''-'' \<notin> set c" "CHR ''-'' \<notin> set d"
      by (simp_all add: word_no_hyphen word_or_dot_no_hyphen)
    with s have "js_split s CHR ''-'' = [a, b, c, d]"
      by (simp add: js_split_append js_split_no_sep)
    with p i show "is_build_identifier s" by blast
  next
    assume "is_build_identifier s"
    with i obtain a b c d where j: "js_split s CHR ''-'' = [a, b, c, d]" and p: "?parts a b c d"
      by blast
    from js_split_ConsD [OF j] obtain r1 where r1: "s = a @ CHR ''-'' # r1" "js_split r1 CHR ''-'' = [b, c, d]"
      by blast
    from js_split_ConsD [OF r1(2)] obtain r2 where r2: "r1 = b @ CHR ''-'' # r2" "js_split r2 CHR ''-'' = [c, d]"
      by blast
    from js_split_ConsD [OF r2(2)] obtain r3 where r3: "r2 = c @ CHR ''-'' # r3" "js_split r3 CHR ''-'' = [d]"
      by blast
    from js_split_singleD [OF r3(2)] have "r3 = d" by simp
    with r1 r2 r3 have "s = a @ CHR ''-'' # b @ CHR ''-'' # c @ CHR ''-'' # d" by simp
    with p m show "match_pieces build_pattern s" by blast
  qed
qed


lemma indexOf_notin: "item \<notin> set xs \<Longrightarrow> indexOf xs item = - 1"
  by (induction xs) auto

lemma indexOf_in: "item \<in> set xs \<Longrightarrow> 0 \<le> indexOf xs item \<and> indexOf xs item < int (length xs)"
  by (induction xs) (auto simp: Let_def)

lemma indexOf_append:
  "indexOf (pre @ xs) item =
     (if item \<in> set pre then indexOf pre item
      else if item \<in> set xs then int (length pre) + indexOf xs item else - 1)"
proof (induction pre)
  case Nil
  then show ?case by (simp add: indexOf_notin)
next
  case (Cons p ps)
  then show ?case
    using indexOf_in [of item ps] indexOf_in [of item xs]
    by (auto simp: Let_def indexOf_notin)
qed

lemma first_seen_cong: "set s1 = set s2 \<Longrightarrow> first_seen s1 xs = first_seen s2 xs"
proof (induction xs arbitrary: s1 s2)
  case Nil
  then show ?case by simp
next
  case (Cons x xs)
  from Cons.prems have "set (x # s1) = set (x # s2)" by simp
  from Cons.IH [OF this] Cons.IH [OF Cons.prems] Cons.prems show ?case by simp
qed

lemma upt_shift: "[n..<n + Suc k] = n # [Suc n..<Suc n + k]"
proof -
  have "[n..<n + Suc k] = n # [Suc n..<n + Suc k]"
    by (rule upt_conv_Cons) simp
  then show ?thesis by (simp del: upt_Suc)
qed

lemma dedup_from:
  "map fst (filter (\<lambda>(item, pos). indexOf (pre @ xs) item = int pos)
       (zip xs [length pre..<length pre + length xs])) = first_seen pre xs"
proof (induction xs arbitrary: pre)
  case Nil
  then show ?case by simp
next
  case (Cons x xs)
  have upt: "[length pre..<length pre + length (x # xs)] =
      length pre # [length (pre @ [x])..<length (pre @ [x]) + length xs]"
    using upt_shift [of "length pre" "length xs"] by (simp del: upt_Suc)
  have hd: "indexOf (pre @ x # xs) x = int (length pre) \<longleftrightarrow> x \<notin> set pre"
    using indexOf_in [of x pre] by (auto simp: indexOf_append)
  have tl: "first_seen (pre @ [x]) xs = first_seen (x # pre) xs"
    by (rule first_seen_cong) auto
  have tl': "x \<in> set pre \<Longrightarrow> first_seen (x # pre) xs = first_seen pre xs"
    by (rule first_seen_cong) auto
  from Cons.IH [of "pre @ [x]"] show ?case
    unfolding upt by (simp add: hd tl tl' del: upt_Suc length_append)
qed

lemma filter_pos_first_seen:
  "filter_pos (\<lambda>item pos self. indexOf self item = int pos) xs = first_seen [] xs"
  using dedup_from [of "[]" xs] by (simp add: filter_pos_def)

lemma first_seen_set: "set (first_seen seen xs) = set xs - set seen"
  by (induction xs arbitrary: seen) auto

lemma first_seen_distinct: "distinct (first_seen seen xs)"
  by (induction xs arbitrary: seen) (auto simp: first_seen_set)

lemma fetchBuildsList_then_eq:
  "fetchBuildsList_then response =
     first_seen [] (filter is_build_identifier (map first_segment (map Key (Contents response))))"
proof -
  have "(\<lambda>key. hd (js_split key CHR ''/'')) = first_segment"
    by (simp add: fun_eq_iff hd_js_split first_segment_def)
  moreover have "(\<lambda>key. match_pieces build_pattern key) = is_build_identifier"
    by (simp add: fun_eq_iff build_pattern_iff)
  ultimately show ?thesis
    by (simp add: fetchBuildsList_then_def filter_pos_first_seen)
qed


text \<open>
  Claim C2, as amended. For every listing, \<open>fetchBuildsList\<close> returns the first path
  segments of the keys that are build identifiers, each once, in the order of their
  first appearance. The pattern in the source accepts exactly the strings of four
  hyphen-joined segments whose first three are non-empty words and whose last is a
  non-empty run of word characters and dots: a dot is allowed in the last segment only.
\<close>

theorem fetchBuildsList_first_seen_identifiers:
  "fetchBuildsList_then response =
     first_seen [] (filter is_build_identifier (map first_segment (map Key (Contents response)))) \<and>
   distinct (fetchBuildsList_then response) \<and>
   set (fetchBuildsList_then response) =
     {seg \<in> set (map first_segment (map Key (Contents response))). is_build_identifier seg} \<and>
   (\<forall>s. match_pieces build_pattern s = is_build_identifier s)"
proof (intro conjI allI)
  show "fetchBuildsList_then response =
     first_seen [] (filter is_build_identifier (map first_segment (map Key (Contents response))))"
    by (rule fetchBuildsList_then_eq)
  show "distinct (fetchBuildsList_then response)"
    by (simp only: fetchBuildsList_then_eq first_seen_distinct)
  show "set (fetchBuildsList_then response) =
     {seg \<in> set (map first_segment (map Key (Contents response))). is_build_identifier seg}"
    by (simp only: fetchBuildsList_then_eq first_seen_set set_filter) simp
  show "match_pieces build_pattern s = is_build_identifier s" for s
    by (rule build_pattern_iff)
qed

theorem fetchBuildsList_first_seen_identifiers_witness:
  "fetchBuildsList_then
     \<lparr>Contents = [\<lparr>Key = ''App-win-x64-1.0/a.exe''\<rparr>, \<lparr>Key = ''App-win-x64-1.0/b.exe''\<rparr>,
                  \<lparr>Key = ''App-mac-x64-2.0/c.dmg''\<rparr>, \<lparr>Key = ''readme.txt''\<rparr>]\<rparr> =
     [''App-win-x64-1.0'', ''App-mac-x64-2.0'']"
proof -
  let ?r = "\<lparr>Contents = [\<lparr>Key = ''App-win-x64-1.0/a.exe''\<rparr>, \<lparr>Key = ''App-win-x64-1.0/b.exe''\<rparr>,
                  \<lparr>Key = ''App-mac-x64-2.0/c.dmg''\<rparr>, \<lparr>Key = ''readme.txt''\<rparr>]\<rparr>"
  have e: "first_seen [] (filter is_build_identifier (map first_segment (map Key (Contents ?r)))) =
      [''App-win-x64-1.0'', ''App-mac-x64-2.0'']"
    by code_simp
  from fetchBuildsList_first_seen_identifiers [of ?r]
  have "fetchBuildsList_then ?r =
      first_seen [] (filter is_build_identifier (map first_segment (map Key (Contents ?r))))"
    by (rule conjunct1)
  with e show ?thesis by (simp only:)
qed

text \<open>
  On the keys of the specification's example the result is not the list given there:
  \<open>App-1.0-win-x64\<close> has a dot in its second segment and does not match the pattern.
\<close>

theorem fetchBuildsList_dotted_second_segment_counterexample:
  "fetchBuildsList_then
     \<lparr>Contents = [\<lparr>Key = ''App-1.0-win-x64/a.exe''\<rparr>, \<lparr>Key = ''App-1.0-win-x64/b.exe''\<rparr>,
                  \<lparr>Key = ''App-2.0-mac-x64/c.dmg''\<rparr>, \<lparr>Key = ''readme.txt''\<rparr>]\<rparr>
     \<noteq> [''App-1.0-win-x64'', ''App-2.0-mac-x64'']"
  by code_simp

lemma startsWith_prefix: "startsWith key buildId \<longleftrightarrow> prefix buildId key"
  unfolding startsWith_def prefix_def
  by (metis append_take_drop_id append_eq_conv_conj)

lemma first_segment_prefix: "prefix (first_segment key) key"
  unfolding first_segment_def by (metis prefixI takeWhile_dropWhile_id)

section \<open>Properties of remote paths\<close>

lemma path_basename_no_sep: "c \<in> set (path_basename pf p) \<Longrightarrow> \<not> is_sep pf c"
  unfolding path_basename_def Let_def by (auto dest: set_takeWhileD)

lemma last_component_decomp:
  "\<exists>dir trail.
     xs = dir @ rev (takeWhile (\<lambda>c. \<not> P c) (dropWhile P (rev xs))) @ trail \<and>
     list_all P trail \<and> (dir = [] \<or> P (last dir))"
proof -
  define t where "t = takeWhile P (rev xs)"
  define r where "r = dropWhile P (rev xs)"
  define m where "m = takeWhile (\<lambda>c. \<not> P c) r"
  define d where "d = dropWhile (\<lambda>c. \<not> P c) r"
  have "rev xs = t @ r" by (simp add: t_def r_def)
  moreover have "r = m @ d" by (simp add: m_def d_def)
  ultimately have "rev xs = t @ m @ d" by simp
  then have "rev (rev xs) = rev (t @ m @ d)" by (rule arg_cong)
  then have 1: "xs = rev d @ rev m @ rev t" by simp
  have 2: "list_all P (rev t)"
    unfolding t_def by (auto simp: list_all_iff dest: set_takeWhileD)
  have 3: "rev d = [] \<or> P (last (rev d))"
  proof (cases "d = []")
    case True
    then show ?thesis by simp
  next
    case False
    then have "\<not> \<not> P (hd d)"
      unfolding d_def by (rule hd_dropWhile)
    moreover from False have "last (rev d) = hd d" by (cases d) simp_all
    ultimately show ?thesis by simp
  qed
  from 1 2 3 show ?thesis
    unfolding m_def r_def by blast
qed

lemma path_basename_decomp:
  "\<exists>dir trail.
     (if pf = Win32 \<and> has_drive p then drop 2 p else p) = dir @ path_basename pf p @ trail \<and>
     list_all (is_sep pf) trail \<and> (dir = [] \<or> is_sep pf (last dir))"
  unfolding path_basename_def Let_def by (rule last_component_decomp)

lemma path_posix_join_plain:
  assumes "plain_segment a" and "plain_segment b"
  shows "path_posix_join [a, b] = a @ ''/'' @ b"
proof -
  from assms have ne: "a \<noteq> []" "b \<noteq> []" and ns: "CHR ''/'' \<notin> set a" "CHR ''/'' \<notin> set b"
    and nd: "a \<noteq> ''.''" "a \<noteq> ''..''" "b \<noteq> ''.''" "b \<noteq> ''..''"
    by (simp_all add: plain_segment_def)
  have j: "path_posix_join [a, b] = path_posix_normalize (a @ CHR ''/'' # b)"
    using ne by (simp add: path_posix_join_def)
  have s: "js_split (a @ CHR ''/'' # b) CHR ''/'' = [a, b]"
    using ns by (simp add: js_split_append js_split_no_sep)
  have hd_ns: "hd (a @ CHR ''/'' # b) \<noteq> CHR ''/''"
    using ne ns by (cases a) auto
  have l: "last (a @ CHR ''/'' # b) \<noteq> CHR ''/''"
    using ne ns by (cases b rule: rev_cases) auto
  have n: "normalizeString True [] [a, b] = [a, b]"
    using ne nd by simp
  show ?thesis
    unfolding j path_posix_normalize_def Let_def using hd_ns l ne
    by (simp add: s n del: normalizeString.simps)
qed


text \<open>
  Claim C8. On either host, \<open>path.basename\<close> returns the last component of the local
  path: it holds no separator of the host, and the path (after a Windows drive prefix)
  is a directory part that is empty or ends in a separator, then that component, then
  separators only. \<open>getRemoteFilePath\<close> joins the build identifier and the normalized
  name of that component with one forward slash, whenever both are plain path segments
  (\<open>path.posix.join\<close> resolves empty, \<open>.\<close> and \<open>..\<close> segments otherwise).
\<close>

theorem getRemoteFilePath_slash_joined:
  "(\<forall>c \<in> set (path_basename (host env) localFilePath). \<not> is_sep (host env) c) \<and>
   (\<exists>dir trail.
      (if host env = Win32 \<and> has_drive localFilePath then drop 2 localFilePath else localFilePath) =
        dir @ path_basename (host env) localFilePath @ trail \<and>
      list_all (is_sep (host env)) trail \<and> (dir = [] \<or> is_sep (host env) (last dir))) \<and>
   getRemoteFilePath env localFilePath build =
     path_posix_join
       [getBuildId env build, normalizeFileName env (path_basename (host env) localFilePath)] \<and>
   (plain_segment (getBuildId env build) \<and>
    plain_segment (normalizeFileName env (path_basename (host env) localFilePath)) \<longrightarrow>
      getRemoteFilePath env localFilePath build =
        getBuildId env build @ ''/'' @
          normalizeFileName env (path_basename (host env) localFilePath))"
proof (intro conjI ballI impI)
  show "getRemoteFilePath env localFilePath build =
     path_posix_join
       [getBuildId env build, normalizeFileName env (path_basename (host env) localFilePath)]"
    by (simp add: getRemoteFilePath_def)
  show "\<not> is_sep (host env) c" if "c \<in> set (path_basename (host env) localFilePath)" for c
    using that by (rule path_basename_no_sep)
  show "\<exists>dir trail.
      (if host env = Win32 \<and> has_drive localFilePath then drop 2 localFilePath else localFilePath) =
        dir @ path_basename (host env) localFilePath @ trail \<and>
      list_all (is_sep (host env)) trail \<and> (dir = [] \<or> is_sep (host env) (last dir))"
    by (rule path_basename_decomp)
  show "getRemoteFilePath env localFilePath build =
        getBuildId env build @ ''/'' @
          normalizeFileName env (path_basename (host env) localFilePath)"
    if "plain_segment (getBuildId env build) \<and>
      plain_segment (normalizeFileName env (path_basename (host env) localFilePath))"
    using that by (simp add: getRemoteFilePath_def path_posix_join_plain)
qed

theorem getRemoteFilePath_slash_joined_witness:
  "getRemoteFilePath
      \<lparr>host = Posix, getBuildId = (\<lambda>build. ''App-1.0-win-x64''), normalizeFileName = (\<lambda>name. name),
       getUpdatesJsonUrl = ''https://example-updates.s3.amazonaws.com/updates.json''\<rparr>
      ''/local/dir/App-1.0-win-x64.exe'' JNull =
     ''App-1.0-win-x64/App-1.0-win-x64.exe'' \<and>
   getRemoteFilePath
      \<lparr>host = Win32, getBuildId = (\<lambda>build. ''App-1.0-win-x64''), normalizeFileName = (\<lambda>name. name),
       getUpdatesJsonUrl = ''https://example-updates.s3.amazonaws.com/updates.json''\<rparr>
      (''C:'' @ [CHR 0x5C] @ ''local'' @ [CHR 0x5C] @ ''dir'' @ [CHR 0x5C] @ ''App-1.0-win-x64.exe'') JNull =
     ''App-1.0-win-x64/App-1.0-win-x64.exe'' \<and>
   getRemoteFilePath
      \<lparr>host = Win32, getBuildId = (\<lambda>build. ''App-1.0-win-x64''), normalizeFileName = (\<lambda>name. name),
       getUpdatesJsonUrl = ''https://example-updates.s3.amazonaws.com/updates.json''\<rparr>
      ''/local/dir/App-1.0-win-x64.exe'' JNull =
     ''App-1.0-win-x64/App-1.0-win-x64.exe''"
proof -
  let ?posix = "\<lparr>host = Posix, getBuildId = (\<lambda>build. ''App-1.0-win-x64''), normalizeFileName = (\<lambda>name. name),
       getUpdatesJsonUrl = ''https://example-updates.s3.amazonaws.com/updates.json''\<rparr>"
  let ?win = "\<lparr>host = Win32, getBuildId = (\<lambda>build. ''App-1.0-win-x64''), normalizeFileName = (\<lambda>name. name),
       getUpdatesJsonUrl = ''https://example-updates.s3.amazonaws.com/updates.json''\<rparr>"
  let ?wp = "''C:'' @ [CHR 0x5C] @ ''local'' @ [CHR 0x5C] @ ''dir'' @ [CHR 0x5C] @ ''App-1.0-win-x64.exe''"
  have b1: "path_basename Posix ''/local/dir/App-1.0-win-x64.exe'' = ''App-1.0-win-x64.exe''"
    by (simp add: path_basename_def is_sep_def)
  have b2: "path_basename Win32 ?wp = ''App-1.0-win-x64.exe''"
    by (simp add: path_basename_def is_sep_def is_letter_def)
  have b3: "path_basename Win32 ''/local/dir/App-1.0-win-x64.exe'' = ''App-1.0-win-x64.exe''"
    by (simp add: path_basename_def is_sep_def is_letter_def)
  have p: "plain_segment ''App-1.0-win-x64''" "plain_segment ''App-1.0-win-x64.exe''"
    by (simp_all add: plain_segment_def)
  note joined = getRemoteFilePath_slash_joined
    [THEN conjunct2, THEN conjunct2, THEN conjunct2, rule_format]
  have "getRemoteFilePath ?posix ''/local/dir/App-1.0-win-x64.exe'' JNull =
      getBuildId ?posix JNull @ ''/'' @
        normalizeFileName ?posix (path_basename (host ?posix) ''/local/dir/App-1.0-win-x64.exe'')"
    by (rule joined) (simp add: b1 p)
  moreover have "getRemoteFilePath ?win ?wp JNull =
      getBuildId ?win JNull @ ''/'' @ normalizeFileName ?win (path_basename (host ?win) ?wp)"
    by (rule joined) (simp add: p path_basename_def is_sep_def is_letter_def)
  moreover have "getRemoteFilePath ?win ''/local/dir/App-1.0-win-x64.exe'' JNull =
      getBuildId ?win JNull @ ''/'' @
        normalizeFileName ?win (path_basename (host ?win) ''/local/dir/App-1.0-win-x64.exe'')"
    by (rule joined) (simp add: b3 p)
  ultimately show ?thesis
    using b2 by (simp add: b1 b3)
qed


section \<open>Properties of the run\<close>

lemma example_world_constructed:
  "S3Transport (JStr ''myapp'') example_options = Inr example_world"
  by (simp add: S3Transport_def normalizeOptions_def merged_aws_def awsAuth_def get_prop_def
      example_options_def example_world_def check_bucket_def coerce_bucket_def default_bucket_def)

lemma lookup_append_last [simp]: "lookup (xs @ [x]) (length xs) = Some x"
  by (simp add: lookup_def)

lemma lookup_Some_iff: "lookup xs i = Some x \<longleftrightarrow> i < length xs \<and> xs ! i = x"
  by (auto simp: lookup_def)

lemma lookup_update: "lookup (xs[i := y]) j = (if j < length xs then (if j = i then Some y else lookup xs j) else None)"
  by (auto simp: lookup_def)

lemma lookup_append: "lookup (xs @ ys) i = (if i < length xs then lookup xs i else lookup ys (i - length xs))"
  by (auto simp: lookup_def nth_append)

lemma update_append_last [simp]: "(xs @ [x])[length xs := y] = xs @ [y]"
  by (induction xs) auto

lemma call_ok_ahead: "ahead w w' \<Longrightarrow> call_ok w ic \<Longrightarrow> call_ok w' ic"
  unfolding ahead_def call_ok_def by (auto split: prod.splits issuer.splits) blast

lemma task_ok_ahead:
  "length (promises w) \<le> length (promises w') \<Longrightarrow>
   (\<forall>p. lookup (promises w) p = Some Provisioned \<longrightarrow> lookup (promises w') p = Some Provisioned) \<Longrightarrow>
   task_ok w task \<Longrightarrow> task_ok w' task"
  unfolding task_ok_def by (auto split: task.splits)

lemma run_callback_access: "is_access (fst (run_callback env cb))"
  by (cases cb) (simp_all add: run_callback_def)

lemma run_inv_ahead:
  assumes "run_inv w" and "ahead w w'"
  shows "list_all (task_ok w') (tasks w)" and "list_all (call_ok w') (calls w)"
  using assms unfolding run_inv_def list_all_iff
  by (auto intro: call_ok_ahead task_ok_ahead simp: ahead_def)

lemma run_inv_task: "run_inv w \<Longrightarrow> lookup (tasks w) t = Some task \<Longrightarrow> task_ok w task"
  by (auto simp: run_inv_def list_all_iff lookup_Some_iff)

lemma list_all_update: "list_all P xs \<Longrightarrow> P y \<Longrightarrow> list_all P (xs[i := y])"
  unfolding list_all_iff using set_update_subset_insert [of xs i y] by auto

lemma inv_task_update:
  assumes "run_inv w" and "lookup (tasks w) t = Some (Chained p st)"
    and "past_q st' \<longrightarrow> lookup (promises w) p = Some Provisioned"
  shows "run_inv (w\<lparr>tasks := (tasks w)[t := Chained p st']\<rparr>)"
proof -
  let ?w = "w\<lparr>tasks := (tasks w)[t := Chained p st']\<rparr>"
  have a: "ahead w ?w"
    using assms(2) by (auto simp: ahead_def lookup_update lookup_Some_iff)
  from run_inv_task [OF assms(1,2)] have p: "p < length (promises w)"
    by (simp add: task_ok_def)
  with assms(3) have "task_ok ?w (Chained p st')"
    by (simp add: task_ok_def)
  with run_inv_ahead [OF assms(1) a] assms(1) show ?thesis
    by (simp add: run_inv_def list_all_update split: option.splits)
qed

lemma inv_task_update_call:
  assumes "run_inv w" and "lookup (tasks w) t = Some (Chained p st)"
    and "lookup (promises w) p = Some Provisioned" and "is_access c"
  shows "run_inv (w\<lparr>tasks := (tasks w)[t := Chained p st'], calls := calls w @ [(ByTask t, c)]\<rparr>)"
proof -
  let ?w = "w\<lparr>tasks := (tasks w)[t := Chained p st'], calls := calls w @ [(ByTask t, c)]\<rparr>"
  have a: "ahead w ?w"
    using assms(2) by (auto simp: ahead_def lookup_update lookup_Some_iff)
  from run_inv_task [OF assms(1,2)] have p: "p < length (promises w)"
    by (simp add: task_ok_def)
  with assms(3) have t: "task_ok ?w (Chained p st')"
    by (simp add: task_ok_def)
  have c: "call_ok ?w (ByTask t, c)"
    using assms(2-4) by (auto simp: call_ok_def lookup_update lookup_Some_iff)
  from run_inv_ahead [OF assms(1) a] assms(1) t c show ?thesis
    by (simp add: run_inv_def list_all_update split: option.splits)
qed

lemma inv_promise_update:
  assumes "run_inv w" and "lookup (promises w) p = Some x" and "x \<noteq> Provisioned"
    and "\<forall>ic \<in> set new. call_ok (w\<lparr>promises := (promises w)[p := y]\<rparr>) ic"
  shows "run_inv (w\<lparr>promises := (promises w)[p := y], calls := calls w @ new\<rparr>)"
proof -
  let ?w = "w\<lparr>promises := (promises w)[p := y], calls := calls w @ new\<rparr>"
  have a: "ahead w ?w"
    using assms(2,3) by (auto simp: ahead_def lookup_update lookup_Some_iff)
  have "call_ok ?w = call_ok (w\<lparr>promises := (promises w)[p := y]\<rparr>)"
    by (auto simp: call_ok_def fun_eq_iff split: issuer.splits)
  with assms(4) have "list_all (call_ok ?w) new"
    by (simp add: list_all_iff)
  with run_inv_ahead [OF assms(1) a] assms(1) show ?thesis
    by (simp add: run_inv_def split: option.splits)
qed

lemma inv_task_append:
  assumes "run_inv w"
    and "case task of Thrown e \<Rightarrow> True | Chained p st \<Rightarrow> p < length (promises w) \<and> \<not> past_q st"
  shows "run_inv (w\<lparr>tasks := tasks w @ [task]\<rparr>)"
proof -
  let ?w = "w\<lparr>tasks := tasks w @ [task]\<rparr>"
  have a: "ahead w ?w"
    by (auto simp: ahead_def lookup_append lookup_Some_iff)
  have "task_ok ?w task"
    using assms(2) by (auto simp: task_ok_def split: task.splits)
  with run_inv_ahead [OF assms(1) a] assms(1) show ?thesis
    by (simp add: run_inv_def split: option.splits)
qed

lemma init_inv: "run_inv w \<Longrightarrow> run_inv (init w)"
proof -
  assume i: "run_inv w"
  let ?w1 = "w\<lparr>aws_config := get_prop (this_options w) ''aws'', this_s3 := True\<rparr>"
  have a1: "ahead w ?w1" by (simp add: ahead_def)
  from run_inv_ahead [OF i a1] i have i1: "run_inv ?w1"
    by (simp add: run_inv_def split: option.splits)
  show ?thesis
  proof (cases "read_member (get_prop (this_options w) ''bucket'') ''Bucket''")
    case (Inl e)
    with i1 show ?thesis by (simp add: init_def Let_def)
  next
    case (Inr b)
    let ?w = "?w1\<lparr>this_q := Some (length (promises w)),
        promises := promises w @ [AwaitHead (get_prop (this_options w) ''bucket'')],
        calls := calls w @ [(ByInit (length (promises w)), HeadBucket b)]\<rparr>"
    have a: "ahead w ?w"
      by (auto simp: ahead_def lookup_append lookup_Some_iff)
    have "call_ok ?w (ByInit (length (promises w)), HeadBucket b)"
      by (simp add: call_ok_def)
    with run_inv_ahead [OF i a] have "run_inv ?w"
      by (simp add: run_inv_def)
    with Inr show ?thesis by (simp add: init_def Let_def)
  qed
qed

lemma headBucket_done_inv: "run_inv w \<Longrightarrow> run_inv (headBucket_done p r w)"
  unfolding headBucket_done_def
  using inv_promise_update [where w = w and p = p and new = "[]"]
  by (auto split: option.splits provisioning.splits
      intro!: inv_promise_update simp: call_ok_def)

lemma createBucket_done_inv: "run_inv w \<Longrightarrow> run_inv (createBucket_done p r w)"
  unfolding createBucket_done_def
  using inv_promise_update [where w = w and p = p and new = "[]"]
  by (auto split: option.splits provisioning.splits)

lemma call_inv:
  assumes "run_inv w"
  shows "run_inv (call env op w)"
proof -
  have "p < length (promises w)" if "this_q w = Some p" for p
    using assms that by (simp add: run_inv_def)
  with assms show ?thesis
    unfolding call_def
    by (auto split: sum.splits option.splits intro!: inv_task_append)
qed

lemma q_then_inv: "run_inv w \<Longrightarrow> run_inv (q_then env t w)"
  unfolding q_then_def
  by (auto split: option.splits task.splits stage.splits provisioning.splits
      intro!: inv_task_update_call inv_task_update simp: run_callback_access)

lemma putObject_done_inv: "run_inv w \<Longrightarrow> run_inv (putObject_done t r w)"
  unfolding putObject_done_def
  by (auto split: option.splits task.splits stage.splits
      intro!: inv_task_update dest: run_inv_task simp: task_ok_def)

lemma listObjects_done_inv: "run_inv w \<Longrightarrow> run_inv (listObjects_done t r w)"
  unfolding listObjects_done_def
  by (auto split: option.splits task.splits stage.splits sum.splits
      intro!: inv_task_update inv_task_update_call dest: run_inv_task simp: task_ok_def)

lemma deleteObjects_done_inv: "run_inv w \<Longrightarrow> run_inv (deleteObjects_done t r w)"
  unfolding deleteObjects_done_def
  by (auto split: option.splits task.splits stage.splits
      intro!: inv_task_update dest: run_inv_task simp: task_ok_def)

lemma step_inv: "run_inv w \<Longrightarrow> run_inv (step env e w)"
  by (cases e)
    (simp_all add: init_inv call_inv headBucket_done_inv createBucket_done_inv q_then_inv
      putObject_done_inv listObjects_done_inv deleteObjects_done_inv)

lemma run_inv_run: "run_inv w \<Longrightarrow> run_inv (run env es w)"
  by (induction es arbitrary: w) (simp_all add: step_inv)

lemma constructed_inv: "S3Transport pkg opts = Inr w \<Longrightarrow> run_inv w"
  by (auto simp: S3Transport_def run_inv_def split: sum.splits)

lemma step_calls_append: "\<exists>new. calls (step env e w) = calls w @ new"
  by (cases e)
    (auto simp: init_def call_def headBucket_done_def createBucket_done_def q_then_def
      putObject_done_def listObjects_done_def deleteObjects_done_def Let_def
      split: sum.splits option.splits task.splits stage.splits provisioning.splits)

lemma calls_step: "calls (step env e w) = calls w @ issued env e w"
  using step_calls_append [of env e w] by (auto simp: issued_def)

lemma issued_call: "issued env (Call op) w = []"
  by (auto simp: issued_def call_def split: sum.splits option.splits)

lemma issued_access:
  assumes "(who, c) \<in> set (issued env e w)" and "is_access c"
  shows "\<exists>t p st. who = ByTask t \<and> lookup (tasks w) t = Some (Chained p st) \<and>
           (past_q st \<or> lookup (promises w) p = Some Provisioned)"
  using assms
  by (cases e)
    (auto simp: issued_def init_def call_def headBucket_done_def createBucket_done_def q_then_def
      putObject_done_def listObjects_done_def deleteObjects_done_def Let_def
      split: sum.splits option.splits task.splits stage.splits provisioning.splits)

lemma issued_access_awaited:
  assumes "run_inv w" and "(who, c) \<in> set (issued env e w)" and "is_access c"
  shows "\<exists>t. who = ByTask t \<and> awaited w t = Some Provisioned"
proof -
  from issued_access [OF assms(2,3)] obtain t p st where w: "who = ByTask t"
    and t: "lookup (tasks w) t = Some (Chained p st)"
    and s: "past_q st \<or> lookup (promises w) p = Some Provisioned"
    by blast
  from run_inv_task [OF assms(1) t] s have "lookup (promises w) p = Some Provisioned"
    by (auto simp: task_ok_def)
  with w t show ?thesis by (simp add: awaited_def)
qed

lemma logged_access_awaited:
  assumes "run_inv w" and "(who, c) \<in> set (calls w)" and "is_access c"
  shows "\<exists>t. who = ByTask t \<and> awaited w t = Some Provisioned"
proof -
  from assms(1,2) have "call_ok w (who, c)"
    by (auto simp: run_inv_def list_all_iff)
  with assms(3) show ?thesis
    by (cases who) (auto simp: call_ok_def awaited_def)
qed

lemma filter_update_count:
  "p < length xs \<Longrightarrow>
     length (filter P (xs[p := y])) + (if P (xs ! p) then 1 else 0) =
     length (filter P xs) + (if P y then 1 else 0)"
proof (induction xs arbitrary: p)
  case Nil
  then show ?case by simp
next
  case (Cons x xs)
  then show ?case by (cases p) auto
qed

lemma init_counted:
  "counted w \<Longrightarrow> counted (init w) \<and> length (promises (init w)) = Suc (length (promises w))"
  by (auto simp: counted_def init_def Let_def count_calls_def)

lemma headBucket_done_counted:
  assumes "counted w"
  shows "counted (headBucket_done p r w) \<and> length (promises (headBucket_done p r w)) = length (promises w)"
proof (cases "lookup (promises w) p")
  case None
  with assms show ?thesis by (simp add: headBucket_done_def)
next
  case (Some x)
  then have p: "p < length (promises w)" and x: "promises w ! p = x"
    by (simp_all add: lookup_Some_iff)
  show ?thesis
  proof (cases x)
    case (AwaitHead bo)
    from filter_update_count [OF p, of is_await_head Provisioned]
      filter_update_count [OF p, of is_await_head AwaitCreate] x AwaitHead
    have "Suc (length (filter is_await_head ((promises w)[p := Provisioned]))) =
        length (filter is_await_head (promises w))"
      and "Suc (length (filter is_await_head ((promises w)[p := AwaitCreate]))) =
        length (filter is_await_head (promises w))"
      by simp_all
    with assms Some AwaitHead show ?thesis
      by (cases r) (auto simp: counted_def headBucket_done_def count_calls_def)
  qed (use assms Some in \<open>simp_all add: headBucket_done_def\<close>)
qed

lemma createBucket_done_counted:
  assumes "counted w"
  shows "counted (createBucket_done p r w) \<and>
         length (promises (createBucket_done p r w)) = length (promises w)"
proof (cases "lookup (promises w) p")
  case None
  with assms show ?thesis by (simp add: createBucket_done_def)
next
  case (Some x)
  then have p: "p < length (promises w)" and x: "promises w ! p = x"
    by (simp_all add: lookup_Some_iff)
  show ?thesis
  proof (cases x)
    case AwaitCreate
    have "length (filter is_await_head ((promises w)[p := y])) =
        length (filter is_await_head (promises w))" if "\<not> is_await_head y" for y
      using filter_update_count [OF p, of is_await_head y] x AwaitCreate that by simp
    with assms Some AwaitCreate show ?thesis
      by (cases r) (auto simp: counted_def createBucket_done_def count_calls_def)
  qed (use assms Some in \<open>simp_all add: createBucket_done_def\<close>)
qed

lemma run_callback_not_provisioning:
  "\<not> is_head (fst (run_callback env cb))" "\<not> is_create (fst (run_callback env cb))"
  by (cases cb; simp add: run_callback_def)+

lemma other_counted:
  assumes "counted w" and "e \<noteq> Init"
  shows "counted (step env e w) \<and> length (promises (step env e w)) = length (promises w)"
proof (cases e)
  case Init
  with assms show ?thesis by simp
next
  case (Call op)
  with assms show ?thesis
    by (auto simp: counted_def call_def count_calls_def split: sum.splits option.splits)
next
  case (HeadBucketDone p r)
  with assms show ?thesis by (simp add: headBucket_done_counted)
next
  case (CreateBucketDone p r)
  with assms show ?thesis by (simp add: createBucket_done_counted)
next
  case (QThen t)
  with assms show ?thesis
    by (auto simp: counted_def q_then_def count_calls_def run_callback_not_provisioning
        split: option.splits task.splits stage.splits provisioning.splits)
next
  case (PutObjectDone t r)
  with assms show ?thesis
    by (auto simp: counted_def putObject_done_def count_calls_def
        split: option.splits task.splits stage.splits)
next
  case (ListObjectsDone t r)
  with assms show ?thesis
    by (auto simp: counted_def listObjects_done_def count_calls_def
        split: option.splits task.splits stage.splits sum.splits)
next
  case (DeleteObjectsDone t r)
  with assms show ?thesis
    by (auto simp: counted_def deleteObjects_done_def count_calls_def
        split: option.splits task.splits stage.splits)
qed

lemma run_counted:
  "counted w \<Longrightarrow>
     counted (run env es w) \<and> length (promises (run env es w)) = length (promises w) + count_init es"
proof (induction es arbitrary: w)
  case Nil
  then show ?case by (simp add: count_init_def)
next
  case (Cons e es)
  show ?case
  proof (cases "e = Init")
    case True
    with init_counted [OF Cons.prems] Cons.IH [of "init w"] show ?thesis
      by (simp add: count_init_def)
  next
    case False
    with other_counted [OF Cons.prems False, of env] Cons.IH [of "step env e w"] show ?thesis
      by (simp add: count_init_def)
  qed
qed

lemma constructed_counted: "S3Transport pkg opts = Inr w \<Longrightarrow> counted w"
proof -
  assume c: "S3Transport pkg opts = Inr w"
  then have "normalizeOptions pkg opts = Inr (this_options w)"
    by (simp add: S3Transport_Inr)
  then have "check_bucket (coerce_bucket (default_bucket pkg (opts(''aws'' \<mapsto> JObj (merged_aws opts))))) =
      Inr (this_options w)"
    by (simp add: normalizeOptions_Inr)
  from bucket_stage_result [OF this] obtain b where "get_prop (this_options w) ''bucket'' = JObj b"
    by blast
  with S3Transport_Inr [OF c] show ?thesis
    by (simp add: counted_def count_calls_def)
qed


text \<open>
  Claim C1. Take a transport that the constructor returned and let anything happen to
  it, any number of times, in any order: \<open>init\<close>, calls of the four public operations,
  answers of the storage service, callbacks run by the event loop. Then every event
  only adds requests to the log; whenever an event makes the transport send a request
  that reads, writes or deletes objects, the sender is an operation whose provisioning
  promise (\<open>this.q\<close> as it was when the operation was called) is already fulfilled
  before that event, and the same holds of every such request in the log; calling an
  operation sends nothing; and there is one provisioning promise and one \<open>headBucket\<close>
  per call of \<open>init\<close>, and at most as many \<open>createBucket\<close> requests, however many
  operations were called.
\<close>

theorem provisioning_precedes_storage_access:
  assumes "S3Transport pkg opts = Inr w0" and "w = run env es w0"
  shows "calls (step env e w) = calls w @ issued env e w \<and>
     (\<forall>(who, c) \<in> set (issued env e w).
        is_access c \<longrightarrow> (\<exists>t. who = ByTask t \<and> awaited w t = Some Provisioned)) \<and>
     (\<forall>(who, c) \<in> set (calls w).
        is_access c \<longrightarrow> (\<exists>t. who = ByTask t \<and> awaited w t = Some Provisioned)) \<and>
     issued env (Call op) w = [] \<and>
     length (promises w) = count_init es \<and>
     count_calls is_head w = count_init es \<and>
     count_calls is_create w \<le> count_init es"
proof -
  from assms have i: "run_inv w"
    by (simp add: constructed_inv run_inv_run)
  from run_counted [OF constructed_counted [OF assms(1)], of env es] assms S3Transport_Inr [OF assms(1)]
  have c: "counted w" and l: "length (promises w) = count_init es"
    by simp_all
  from c l have "count_calls is_head w = count_init es" "count_calls is_create w \<le> count_init es"
    by (simp_all add: counted_def)
  with l i show ?thesis
    by (auto simp: calls_step issued_call dest: issued_access_awaited logged_access_awaited)
qed

theorem provisioning_precedes_storage_access_witness:
  "S3Transport (JStr ''myapp'') example_options = Inr example_world \<and>
   issued example_env (QThen 0) (run example_env [Init, Call FetchBuildsList] example_world) = [] \<and>
   issued example_env (QThen 0)
     (run example_env [Init, Call FetchBuildsList, HeadBucketDone 0 None] example_world) =
     [(ByTask 0, ListObjectsV2 (JStr ''myapp-updates''))] \<and>
   awaited (run example_env [Init, Call FetchBuildsList, HeadBucketDone 0 None] example_world) 0 =
     Some Provisioned \<and>
   count_calls is_head
     (run example_env [Init, Call FetchBuildsList, HeadBucketDone 0 None] example_world) = 1"
proof -
  let ?es = "[Init, Call FetchBuildsList, HeadBucketDone 0 None]"
  let ?w = "run example_env ?es example_world"
  have pending: "issued example_env (QThen 0) (run example_env [Init, Call FetchBuildsList] example_world) = []"
    by (simp add: issued_def example_world_def init_def call_def q_then_def get_prop_def
        callback_of_def lookup_def)
  have sent: "issued example_env (QThen 0) ?w = [(ByTask 0, ListObjectsV2 (JStr ''myapp-updates''))]"
    by (simp add: issued_def example_world_def init_def call_def q_then_def get_prop_def
        callback_of_def lookup_def headBucket_done_def run_callback_def)
  from provisioning_precedes_storage_access
    [where env = example_env and es = ?es and e = "QThen 0", OF example_world_constructed refl]
  have "\<forall>(who, c) \<in> set (issued example_env (QThen 0) ?w).
        is_access c \<longrightarrow> (\<exists>t. who = ByTask t \<and> awaited ?w t = Some Provisioned)"
    and "count_calls is_head ?w = count_init ?es"
    by blast+
  with sent have "awaited ?w 0 = Some Provisioned" and "count_calls is_head ?w = 1"
    by (simp_all add: count_init_def)
  with pending sent example_world_constructed show ?thesis
    by simp
qed


lemma run_append: "run env (es @ es') w = run env es' (run env es w)"
  by (induction es arbitrary: w) simp_all

lemma lookup_SomeD: "lookup xs i = Some x \<Longrightarrow> i < length xs"
  by (simp add: lookup_Some_iff)

lemma failed_step:
  assumes "lookup (promises w) p = Some (ProvisionFailed e)"
    and "lookup (tasks w) t = Some (Chained p (OnQ cb)) \<or>
         lookup (tasks w) t = Some (Chained p (Rejected e))"
  shows "lookup (promises (step env ev w)) p = Some (ProvisionFailed e) \<and>
     (lookup (tasks (step env ev w)) t = Some (Chained p (OnQ cb)) \<or>
      lookup (tasks (step env ev w)) t = Some (Chained p (Rejected e))) \<and>
     calls_of t (step env ev w) = calls_of t w"
  using assms
  by (cases ev)
    (auto simp: init_def call_def headBucket_done_def createBucket_done_def q_then_def
      putObject_done_def listObjects_done_def deleteObjects_done_def Let_def calls_of_def
      lookup_append lookup_update
      split: sum.splits option.splits task.splits stage.splits provisioning.splits
      dest: lookup_SomeD)

lemma failed_run:
  assumes "lookup (promises w) p = Some (ProvisionFailed e)"
    and "lookup (tasks w) t = Some (Chained p (OnQ cb)) \<or>
         lookup (tasks w) t = Some (Chained p (Rejected e))"
  shows "lookup (promises (run env es w)) p = Some (ProvisionFailed e) \<and>
     (lookup (tasks (run env es w)) t = Some (Chained p (OnQ cb)) \<or>
      lookup (tasks (run env es w)) t = Some (Chained p (Rejected e))) \<and>
     calls_of t (run env es w) = calls_of t w"
  using assms
proof (induction es arbitrary: w)
  case Nil
  then show ?case by simp
next
  case (Cons ev es)
  from failed_step [OF Cons.prems, of env ev] Cons.IH [of "step env ev w"]
  show ?case by simp
qed

lemma failed_q_then:
  assumes "lookup (promises w) p = Some (ProvisionFailed e)"
    and "lookup (tasks w) t = Some (Chained p (OnQ cb)) \<or>
         lookup (tasks w) t = Some (Chained p (Rejected e))"
  shows "lookup (tasks (q_then env t w)) t = Some (Chained p (Rejected e))"
  using assms by (auto simp: q_then_def lookup_update dest: lookup_SomeD)


lemma issued_init:
  "read_member (get_prop (this_options w) ''bucket'') ''Bucket'' = Inr b \<Longrightarrow>
     issued env Init w = [(ByInit (length (promises w)), HeadBucket b)] \<and>
     this_q (step env Init w) = Some (length (promises w)) \<and>
     lookup (promises (step env Init w)) (length (promises w)) =
       Some (AwaitHead (get_prop (this_options w) ''bucket''))"
  by (simp add: issued_def init_def Let_def)

lemma head_answer:
  "lookup (promises w) p = Some (AwaitHead bo) \<Longrightarrow>
     issued env (HeadBucketDone p (Some e)) w = [(ByInit p, CreateBucket bo)] \<and>
     lookup (promises (step env (HeadBucketDone p (Some e)) w)) p = Some AwaitCreate \<and>
     issued env (HeadBucketDone p None) w = [] \<and>
     lookup (promises (step env (HeadBucketDone p None) w)) p = Some Provisioned"
  by (auto simp: issued_def headBucket_done_def lookup_update dest: lookup_SomeD)

lemma create_answer:
  "lookup (promises w) p = Some AwaitCreate \<Longrightarrow>
     issued env (CreateBucketDone p (Some e)) w = [] \<and>
     lookup (promises (step env (CreateBucketDone p (Some e)) w)) p = Some (ProvisionFailed e) \<and>
     issued env (CreateBucketDone p None) w = [] \<and>
     lookup (promises (step env (CreateBucketDone p None) w)) p = Some Provisioned"
  by (auto simp: issued_def createBucket_done_def lookup_update dest: lookup_SomeD)

text \<open>
  Claim C6. In any state of a transport: \<open>init\<close> first sends \<open>headBucket\<close> and makes
  the pending promise \<open>this.q\<close>. If \<open>headBucket\<close> fails, its error is dropped: the
  promise is not rejected, and \<open>createBucket\<close> is sent with the bucket options (if it
  succeeds the promise is fulfilled and nothing is sent). If \<open>createBucket\<close> then fails
  with \<open>e\<close>, the promise is rejected with \<open>e\<close>. From then on, whatever else happens,
  the promise stays rejected, an operation that waits on it sends no request, and when
  its callback is due the operation is rejected with that same \<open>e\<close>.
\<close>

theorem provisioning_failure_propagates:
  "(read_member (get_prop (this_options w) ''bucket'') ''Bucket'' = Inr b \<longrightarrow>
      issued env Init w = [(ByInit (length (promises w)), HeadBucket b)] \<and>
      this_q (step env Init w) = Some (length (promises w)) \<and>
      lookup (promises (step env Init w)) (length (promises w)) =
        Some (AwaitHead (get_prop (this_options w) ''bucket''))) \<and>
   (lookup (promises w) p = Some (AwaitHead bo) \<longrightarrow>
      issued env (HeadBucketDone p (Some e)) w = [(ByInit p, CreateBucket bo)] \<and>
      lookup (promises (step env (HeadBucketDone p (Some e)) w)) p = Some AwaitCreate \<and>
      issued env (HeadBucketDone p None) w = [] \<and>
      lookup (promises (step env (HeadBucketDone p None) w)) p = Some Provisioned) \<and>
   (lookup (promises w) p = Some AwaitCreate \<longrightarrow>
      issued env (CreateBucketDone p (Some e)) w = [] \<and>
      lookup (promises (step env (CreateBucketDone p (Some e)) w)) p = Some (ProvisionFailed e) \<and>
      issued env (CreateBucketDone p None) w = [] \<and>
      lookup (promises (step env (CreateBucketDone p None) w)) p = Some Provisioned) \<and>
   (lookup (promises w) p = Some (ProvisionFailed e) \<and>
    lookup (tasks w) t = Some (Chained p (OnQ cb)) \<longrightarrow>
      lookup (promises (run env es w)) p = Some (ProvisionFailed e) \<and>
      (lookup (tasks (run env es w)) t = Some (Chained p (OnQ cb)) \<or>
       lookup (tasks (run env es w)) t = Some (Chained p (Rejected e))) \<and>
      calls_of t (run env es w) = calls_of t w \<and>
      lookup (tasks (run env (es @ [QThen t]) w)) t = Some (Chained p (Rejected e)))"
proof (intro conjI impI)
  assume a: "lookup (promises w) p = Some (ProvisionFailed e) \<and>
    lookup (tasks w) t = Some (Chained p (OnQ cb))"
  then have r: "lookup (promises (run env es w)) p = Some (ProvisionFailed e) \<and>
     (lookup (tasks (run env es w)) t = Some (Chained p (OnQ cb)) \<or>
      lookup (tasks (run env es w)) t = Some (Chained p (Rejected e))) \<and>
     calls_of t (run env es w) = calls_of t w"
    by (intro failed_run) simp_all
  then show "lookup (promises (run env es w)) p = Some (ProvisionFailed e)"
    and "lookup (tasks (run env es w)) t = Some (Chained p (OnQ cb)) \<or>
       lookup (tasks (run env es w)) t = Some (Chained p (Rejected e))"
    and "calls_of t (run env es w) = calls_of t w"
    by simp_all
  from r have "lookup (tasks (q_then env t (run env es w))) t = Some (Chained p (Rejected e))"
    by (intro failed_q_then [where cb = cb]) simp_all
  then show "lookup (tasks (run env (es @ [QThen t]) w)) t = Some (Chained p (Rejected e))"
    by (simp add: run_append)
qed (use issued_init [of w b env] head_answer [of w p bo env e] create_answer [of w p env e]
    in simp_all)


theorem provisioning_failure_propagates_witness:
  "map snd (calls (run example_env
      [Init, Call FetchBuildsList, Call (UploadFile ''/dist/app.exe'' (JStr ''App-win-x64-1.0'')),
       HeadBucketDone 0 (Some ''NotFound''), CreateBucketDone 0 (Some ''AccessDenied'')]
      example_world)) =
     [HeadBucket (JStr ''myapp-updates''), CreateBucket (JObj [''Bucket'' \<mapsto> JStr ''myapp-updates''])] \<and>
   lookup (tasks (run example_env ([QThen 0] @ [QThen 1]) (run example_env
      [Init, Call FetchBuildsList, Call (UploadFile ''/dist/app.exe'' (JStr ''App-win-x64-1.0'')),
       HeadBucketDone 0 (Some ''NotFound''), CreateBucketDone 0 (Some ''AccessDenied'')]
      example_world))) 1 = Some (Chained 0 (Rejected ''AccessDenied'')) \<and>
   calls_of 1 (run example_env [QThen 0] (run example_env
      [Init, Call FetchBuildsList, Call (UploadFile ''/dist/app.exe'' (JStr ''App-win-x64-1.0'')),
       HeadBucketDone 0 (Some ''NotFound''), CreateBucketDone 0 (Some ''AccessDenied'')]
      example_world)) = []"
proof -
  let ?es = "[Init, Call FetchBuildsList, Call (UploadFile ''/dist/app.exe'' (JStr ''App-win-x64-1.0'')),
       HeadBucketDone 0 (Some ''NotFound''), CreateBucketDone 0 (Some ''AccessDenied'')]"
  let ?w = "run example_env ?es example_world"
  let ?cb = "UploadCb ''/dist/app.exe'' ''App-win-x64-1.0/app.exe'' (JStr ''myapp-updates'')"
  have r: "getRemoteFilePath example_env ''/dist/app.exe'' (JStr ''App-win-x64-1.0'') =
      ''App-win-x64-1.0/app.exe''"
    by (simp add: getRemoteFilePath_def example_env_def path_basename_def is_sep_def
        path_posix_join_def path_posix_normalize_def)
  have w: "?w = example_world\<lparr>aws_config := get_prop (this_options example_world) ''aws'',
      this_s3 := True, this_q := Some 0, promises := [ProvisionFailed ''AccessDenied''],
      tasks := [Chained 0 (OnQ (FetchCb (JStr ''myapp-updates''))), Chained 0 (OnQ ?cb)],
      calls := [(ByInit 0, HeadBucket (JStr ''myapp-updates'')),
                (ByInit 0, CreateBucket (JObj [''Bucket'' \<mapsto> JStr ''myapp-updates'']))]\<rparr>"
    by (simp add: example_world_def init_def call_def get_prop_def callback_of_def lookup_def
        headBucket_done_def createBucket_done_def r)
  have h: "lookup (promises ?w) 0 = Some (ProvisionFailed ''AccessDenied'') \<and>
      lookup (tasks ?w) 1 = Some (Chained 0 (OnQ ?cb))"
    unfolding w by (simp add: lookup_def)
  have c: "calls_of 1 ?w = []"
    unfolding w by (simp add: calls_of_def)
  from provisioning_failure_propagates
    [where w = ?w and p = 0 and e = "''AccessDenied''" and t = 1 and cb = ?cb and env = example_env
      and es = "[QThen 0]"] h c
  have "lookup (tasks (run example_env ([QThen 0] @ [QThen 1]) ?w)) 1 =
      Some (Chained 0 (Rejected ''AccessDenied''))"
    and "calls_of 1 (run example_env [QThen 0] ?w) = []"
    by simp_all
  moreover have "map snd (calls ?w) =
     [HeadBucket (JStr ''myapp-updates''), CreateBucket (JObj [''Bucket'' \<mapsto> JStr ''myapp-updates''])]"
    unfolding w by simp
  ultimately show ?thesis by blast
qed

lemma removeBuild_run:
  assumes "read_member (get_prop (this_options w) ''bucket'') ''Bucket'' = Inr bucket"
    and "this_q w = Some p"
    and "lookup (promises w) p = Some Provisioned"
  shows "run env [Call (RemoveBuild build), QThen (length (tasks w)),
             ListObjectsDone (length (tasks w)) (Inr response)] w =
     w\<lparr>tasks := tasks w @ [Chained p DeleteSent],
       calls := calls w @
         [(ByTask (length (tasks w)), ListObjectsV2 bucket),
          (ByTask (length (tasks w)),
           DeleteObjects bucket
             (removeBuild_objects (removeBuild_keys (getBuildId env build) response)))]\<rparr>"
  using assms
  by (simp add: call_def callback_of_def q_then_def run_callback_def listObjects_done_def)

lemma removeBuild_objects_keys: "map Key (removeBuild_objects keys) = keys"
  by (simp add: removeBuild_objects_def comp_def)

lemma removeBuild_keys_prefix:
  "removeBuild_keys buildId response = filter (prefix buildId) (map Key (Contents response))"
  by (simp add: removeBuild_keys_def startsWith_prefix)


lemma example_provisioned:
  "run example_env [Init, HeadBucketDone 0 None] example_world =
     example_world\<lparr>aws_config := get_prop (this_options example_world) ''aws'',
       this_s3 := True, this_q := Some 0, promises := [Provisioned],
       calls := [(ByInit 0, HeadBucket (JStr ''myapp-updates''))]\<rparr>"
  by (simp add: example_world_def init_def get_prop_def headBucket_done_def lookup_def)

lemma example_provisioned_facts:
  "read_member (get_prop (this_options (run example_env [Init, HeadBucketDone 0 None] example_world))
      ''bucket'') ''Bucket'' = Inr (JStr ''myapp-updates'')"
  "this_q (run example_env [Init, HeadBucketDone 0 None] example_world) = Some 0"
  "lookup (promises (run example_env [Init, HeadBucketDone 0 None] example_world)) 0 = Some Provisioned"
  "tasks (run example_env [Init, HeadBucketDone 0 None] example_world) = []"
  "calls (run example_env [Init, HeadBucketDone 0 None] example_world) =
     [(ByInit 0, HeadBucket (JStr ''myapp-updates''))]"
  unfolding example_provisioned
  by (simp_all add: example_world_def get_prop_def lookup_def)

text \<open>
  Claim C3. On a provisioned transport, a call of \<open>removeBuild\<close> followed by its
  callback and by any listing sends two requests: the listing, and one batch delete whose
  objects are exactly the listed keys that begin with the build identifier, in the order
  of the listing.
\<close>

theorem removeBuild_deletes_prefixed_keys:
  assumes "read_member (get_prop (this_options w) ''bucket'') ''Bucket'' = Inr bucket"
    and "this_q w = Some p"
    and "lookup (promises w) p = Some Provisioned"
    and "t = length (tasks w)"
  shows "\<exists>objs.
     calls (run env [Call (RemoveBuild build), QThen t, ListObjectsDone t (Inr response)] w) =
       calls w @ [(ByTask t, ListObjectsV2 bucket), (ByTask t, DeleteObjects bucket objs)] \<and>
     objs = removeBuild_objects (removeBuild_keys (getBuildId env build) response) \<and>
     map Key objs = filter (prefix (getBuildId env build)) (map Key (Contents response)) \<and>
     set (map Key objs) =
       {key \<in> set (map Key (Contents response)). prefix (getBuildId env build) key}"
proof -
  let ?objs = "removeBuild_objects (removeBuild_keys (getBuildId env build) response)"
  have k: "map Key ?objs = filter (prefix (getBuildId env build)) (map Key (Contents response))"
    by (simp only: removeBuild_objects_keys removeBuild_keys_prefix)
  have s: "set (map Key ?objs) =
      {key \<in> set (map Key (Contents response)). prefix (getBuildId env build) key}"
    unfolding k by simp
  have c: "calls (run env [Call (RemoveBuild build), QThen t, ListObjectsDone t (Inr response)] w) =
       calls w @ [(ByTask t, ListObjectsV2 bucket), (ByTask t, DeleteObjects bucket ?objs)]"
    unfolding assms(4) removeBuild_run [OF assms(1-3)] by simp
  show ?thesis
    by (rule exI [of _ ?objs], intro conjI) (rule c, rule refl, rule k, rule s)
qed

theorem removeBuild_deletes_prefixed_keys_witness:
  "\<exists>objs.
     calls (run example_env
        [Call (RemoveBuild (JStr ''App-1.0-win-x64'')), QThen 0,
         ListObjectsDone 0 (Inr \<lparr>Contents =
           [\<lparr>Key = ''App-1.0-win-x64/app.exe''\<rparr>, \<lparr>Key = ''App-2.0-mac-x64/app.dmg''\<rparr>,
            \<lparr>Key = ''updates.json''\<rparr>, \<lparr>Key = ''App-1.0-win-x64/RELEASES''\<rparr>]\<rparr>)]
        (run example_env [Init, HeadBucketDone 0 None] example_world)) =
       [(ByInit 0, HeadBucket (JStr ''myapp-updates'')),
        (ByTask 0, ListObjectsV2 (JStr ''myapp-updates'')),
        (ByTask 0, DeleteObjects (JStr ''myapp-updates'') objs)] \<and>
     map Key objs = [''App-1.0-win-x64/app.exe'', ''App-1.0-win-x64/RELEASES'']"
proof -
  let ?w = "run example_env [Init, HeadBucketDone 0 None] example_world"
  let ?r = "\<lparr>Contents =
           [\<lparr>Key = ''App-1.0-win-x64/app.exe''\<rparr>, \<lparr>Key = ''App-2.0-mac-x64/app.dmg''\<rparr>,
            \<lparr>Key = ''updates.json''\<rparr>, \<lparr>Key = ''App-1.0-win-x64/RELEASES''\<rparr>]\<rparr>"
  have t: "0 = length (tasks ?w)"
    by (simp only: example_provisioned_facts list.size)
  from removeBuild_deletes_prefixed_keys
    [OF example_provisioned_facts(1-3) t, of example_env "JStr ''App-1.0-win-x64''" ?r]
  obtain objs where c: "calls (run example_env
        [Call (RemoveBuild (JStr ''App-1.0-win-x64'')), QThen 0, ListObjectsDone 0 (Inr ?r)] ?w) =
       calls ?w @ [(ByTask 0, ListObjectsV2 (JStr ''myapp-updates'')),
                   (ByTask 0, DeleteObjects (JStr ''myapp-updates'') objs)]"
    and k: "map Key objs =
        filter (prefix (getBuildId example_env (JStr ''App-1.0-win-x64''))) (map Key (Contents ?r))"
    by blast
  have "filter (prefix (getBuildId example_env (JStr ''App-1.0-win-x64''))) (map Key (Contents ?r)) =
      [''App-1.0-win-x64/app.exe'', ''App-1.0-win-x64/RELEASES'']"
    by (simp add: example_env_def)
  with k have "map Key objs = [''App-1.0-win-x64/app.exe'', ''App-1.0-win-x64/RELEASES'']"
    by (simp only:)
  moreover from c have "calls (run example_env
        [Call (RemoveBuild (JStr ''App-1.0-win-x64'')), QThen 0, ListObjectsDone 0 (Inr ?r)] ?w) =
       [(ByInit 0, HeadBucket (JStr ''myapp-updates'')),
        (ByTask 0, ListObjectsV2 (JStr ''myapp-updates'')),
        (ByTask 0, DeleteObjects (JStr ''myapp-updates'') objs)]"
    by (simp only: example_provisioned_facts append.simps)
  ultimately show ?thesis
    by (intro exI [of _ objs] conjI)
qed


text \<open>
  Claim C7. When no listed key begins with the build identifier, \<open>removeBuild\<close> does
  not fail: it sends the batch delete all the same, with an empty list of objects, and
  nothing else; the operation is then waiting for the answer to that request, neither
  thrown nor rejected; and when the storage service accepts the request the operation
  is fulfilled, and no further request is sent.
\<close>

theorem removeBuild_without_match:
  assumes "read_member (get_prop (this_options w) ''bucket'') ''Bucket'' = Inr bucket"
    and "this_q w = Some p"
    and "lookup (promises w) p = Some Provisioned"
    and "t = length (tasks w)"
    and "\<forall>key \<in> set (map Key (Contents response)). \<not> prefix (getBuildId env build) key"
    and "w' = run env [Call (RemoveBuild build), QThen t, ListObjectsDone t (Inr response)] w"
  shows "calls w' =
       calls w @ [(ByTask t, ListObjectsV2 bucket), (ByTask t, DeleteObjects bucket [])] \<and>
     lookup (tasks w') t = Some (Chained p DeleteSent) \<and>
     lookup (tasks (step env (DeleteObjectsDone t None) w')) t =
       Some (Chained p (Fulfilled DeleteData)) \<and>
     issued env (DeleteObjectsDone t None) w' = []"
proof -
  from assms(5) have "removeBuild_keys (getBuildId env build) response = []"
    by (simp add: removeBuild_keys_prefix filter_empty_conv)
  with removeBuild_run [OF assms(1-3), of env build response] assms(4,6)
  have w': "w' = w\<lparr>tasks := tasks w @ [Chained p DeleteSent],
       calls := calls w @ [(ByTask t, ListObjectsV2 bucket), (ByTask t, DeleteObjects bucket [])]\<rparr>"
    by (simp add: removeBuild_objects_def)
  show ?thesis
    unfolding w' using assms(4)
    by (simp add: deleteObjects_done_def issued_def)
qed

theorem removeBuild_without_match_witness:
  "calls (run example_env
      [Init, HeadBucketDone 0 None, Call (RemoveBuild (JStr ''App-1.0-win-x64'')), QThen 0,
       ListObjectsDone 0 (Inr \<lparr>Contents = [\<lparr>Key = ''updates.json''\<rparr>]\<rparr>)] example_world) =
     [(ByInit 0, HeadBucket (JStr ''myapp-updates'')),
      (ByTask 0, ListObjectsV2 (JStr ''myapp-updates'')),
      (ByTask 0, DeleteObjects (JStr ''myapp-updates'') [])] \<and>
   lookup (tasks (run example_env
      [Init, HeadBucketDone 0 None, Call (RemoveBuild (JStr ''App-1.0-win-x64'')), QThen 0,
       ListObjectsDone 0 (Inr \<lparr>Contents = [\<lparr>Key = ''updates.json''\<rparr>]\<rparr>),
       DeleteObjectsDone 0 None] example_world)) 0 = Some (Chained 0 (Fulfilled DeleteData))"
proof -
  let ?w = "run example_env [Init, HeadBucketDone 0 None] example_world"
  let ?r = "\<lparr>Contents = [\<lparr>Key = ''updates.json''\<rparr>]\<rparr>"
  let ?es = "[Call (RemoveBuild (JStr ''App-1.0-win-x64'')), QThen 0, ListObjectsDone 0 (Inr ?r)]"
  have t: "0 = length (tasks ?w)"
    by (simp only: example_provisioned_facts list.size)
  have n: "\<forall>key \<in> set (map Key (Contents ?r)).
      \<not> prefix (getBuildId example_env (JStr ''App-1.0-win-x64'')) key"
    by (simp add: example_env_def)
  from removeBuild_without_match [OF example_provisioned_facts(1-3) t n refl]
  have "calls (run example_env ?es ?w) =
       calls ?w @ [(ByTask 0, ListObjectsV2 (JStr ''myapp-updates'')),
                   (ByTask 0, DeleteObjects (JStr ''myapp-updates'') [])]"
    and f: "lookup (tasks (step example_env (DeleteObjectsDone 0 None) (run example_env ?es ?w))) 0 =
       Some (Chained 0 (Fulfilled DeleteData))"
    by blast+
  then have c: "calls (run example_env ?es ?w) =
       [(ByInit 0, HeadBucket (JStr ''myapp-updates'')),
        (ByTask 0, ListObjectsV2 (JStr ''myapp-updates'')),
        (ByTask 0, DeleteObjects (JStr ''myapp-updates'') [])]"
    by (simp only: example_provisioned_facts append.simps)
  have r1: "run example_env ?es ?w = run example_env ([Init, HeadBucketDone 0 None] @ ?es) example_world"
    by (simp only: run_append)
  have r2: "step example_env (DeleteObjectsDone 0 None) (run example_env ?es ?w) =
      run example_env (([Init, HeadBucketDone 0 None] @ ?es) @ [DeleteObjectsDone 0 None]) example_world"
    by (simp only: run_append run.simps)
  from f have "lookup (tasks (run example_env
      (([Init, HeadBucketDone 0 None] @ ?es) @ [DeleteObjectsDone 0 None]) example_world)) 0 =
       Some (Chained 0 (Fulfilled DeleteData))"
    by (simp only: r2)
  moreover from c have "calls (run example_env ([Init, HeadBucketDone 0 None] @ ?es) example_world) =
       [(ByInit 0, HeadBucket (JStr ''myapp-updates'')),
        (ByTask 0, ListObjectsV2 (JStr ''myapp-updates'')),
        (ByTask 0, DeleteObjects (JStr ''myapp-updates'') [])]"
    by (simp only: r1)
  ultimately show ?thesis
    by (simp only: append.simps simp_thms)
qed

text \<open>
  Claim C9. The keys of the batch delete that \<open>removeBuild\<close> sends are chosen by
  comparing the build identifier with the beginning of the whole key, and by nothing
  else: a listed key is in the request exactly if it is the identifier followed by any
  string. So a listed key whose first path segment is longer than the identifier and
  begins with it, the key of another build, is in the request as well.
\<close>

theorem removeBuild_selects_by_string_prefix:
  assumes "read_member (get_prop (this_options w) ''bucket'') ''Bucket'' = Inr bucket"
    and "this_q w = Some p"
    and "lookup (promises w) p = Some Provisioned"
    and "t = length (tasks w)"
  shows "\<exists>objs.
     calls (run env [Call (RemoveBuild build), QThen t, ListObjectsDone t (Inr response)] w) =
       calls w @ [(ByTask t, ListObjectsV2 bucket), (ByTask t, DeleteObjects bucket objs)] \<and>
     (\<forall>key. key \<in> set (map Key objs) \<longleftrightarrow>
        key \<in> set (map Key (Contents response)) \<and> (\<exists>rest. key = getBuildId env build @ rest)) \<and>
     (\<forall>key. key \<in> set (map Key (Contents response)) \<and>
        strict_prefix (getBuildId env build) (first_segment key) \<longrightarrow>
          first_segment key \<noteq> getBuildId env build \<and> \<lparr>Key = key\<rparr> \<in> set objs)"
proof -
  let ?id = "getBuildId env build"
  let ?objs = "removeBuild_objects (removeBuild_keys ?id response)"
  have c: "calls (run env [Call (RemoveBuild build), QThen t, ListObjectsDone t (Inr response)] w) =
       calls w @ [(ByTask t, ListObjectsV2 bucket), (ByTask t, DeleteObjects bucket ?objs)]"
    unfolding assms(4) removeBuild_run [OF assms(1-3)] by simp
  have k: "map Key ?objs = filter (prefix ?id) (map Key (Contents response))"
    by (simp only: removeBuild_objects_keys removeBuild_keys_prefix)
  have i: "\<forall>key. key \<in> set (map Key ?objs) \<longleftrightarrow>
      key \<in> set (map Key (Contents response)) \<and> (\<exists>rest. key = ?id @ rest)"
    unfolding k by (auto simp: prefix_def)
  have s: "\<forall>key. key \<in> set (map Key (Contents response)) \<and> strict_prefix ?id (first_segment key) \<longrightarrow>
      first_segment key \<noteq> ?id \<and> \<lparr>Key = key\<rparr> \<in> set ?objs"
  proof (intro allI impI)
    fix key
    assume a: "key \<in> set (map Key (Contents response)) \<and> strict_prefix ?id (first_segment key)"
    then have "prefix ?id key"
      using first_segment_prefix [of key]
      by (auto simp: strict_prefix_def intro: prefix_order.order_trans)
    with a have "key \<in> set (removeBuild_keys ?id response)"
      by (simp add: removeBuild_keys_prefix)
    then have "\<lparr>Key = key\<rparr> \<in> set ?objs"
      by (simp add: removeBuild_objects_def)
    with a show "first_segment key \<noteq> ?id \<and> \<lparr>Key = key\<rparr> \<in> set ?objs"
      by (auto simp: strict_prefix_def)
  qed
  show ?thesis
    by (rule exI [of _ ?objs], intro conjI) (rule c, rule i, rule s)
qed

theorem removeBuild_selects_by_string_prefix_witness:
  "\<exists>objs.
     calls (run example_env
        [Call (RemoveBuild (JStr ''App-1.0-win-x64'')), QThen 0,
         ListObjectsDone 0 (Inr \<lparr>Contents =
           [\<lparr>Key = ''App-1.0-win-x64-beta/app.exe''\<rparr>, \<lparr>Key = ''App-1.0-mac-x64/app.dmg''\<rparr>]\<rparr>)]
        (run example_env [Init, HeadBucketDone 0 None] example_world)) =
       [(ByInit 0, HeadBucket (JStr ''myapp-updates'')),
        (ByTask 0, ListObjectsV2 (JStr ''myapp-updates'')),
        (ByTask 0, DeleteObjects (JStr ''myapp-updates'') objs)] \<and>
     first_segment ''App-1.0-win-x64-beta/app.exe'' \<noteq> ''App-1.0-win-x64'' \<and>
     \<lparr>Key = ''App-1.0-win-x64-beta/app.exe''\<rparr> \<in> set objs \<and>
     ''App-1.0-mac-x64/app.dmg'' \<notin> set (map Key objs)"
proof -
  let ?w = "run example_env [Init, HeadBucketDone 0 None] example_world"
  let ?r = "\<lparr>Contents =
           [\<lparr>Key = ''App-1.0-win-x64-beta/app.exe''\<rparr>, \<lparr>Key = ''App-1.0-mac-x64/app.dmg''\<rparr>]\<rparr>"
  let ?id = "getBuildId example_env (JStr ''App-1.0-win-x64'')"
  have t: "0 = length (tasks ?w)"
    by (simp only: example_provisioned_facts list.size)
  have id: "?id = ''App-1.0-win-x64''"
    by (simp add: example_env_def)
  from removeBuild_selects_by_string_prefix
    [OF example_provisioned_facts(1-3) t, of example_env "JStr ''App-1.0-win-x64''" ?r]
  obtain objs where c: "calls (run example_env
        [Call (RemoveBuild (JStr ''App-1.0-win-x64'')), QThen 0, ListObjectsDone 0 (Inr ?r)] ?w) =
       calls ?w @ [(ByTask 0, ListObjectsV2 (JStr ''myapp-updates'')),
                   (ByTask 0, DeleteObjects (JStr ''myapp-updates'') objs)]"
    and i: "\<And>key. key \<in> set (map Key objs) \<longleftrightarrow>
        key \<in> set (map Key (Contents ?r)) \<and> (\<exists>rest. key = ?id @ rest)"
    and s: "\<And>key. key \<in> set (map Key (Contents ?r)) \<and> strict_prefix ?id (first_segment key) \<Longrightarrow>
        first_segment key \<noteq> ?id \<and> \<lparr>Key = key\<rparr> \<in> set objs"
    by blast
  have "''App-1.0-win-x64-beta/app.exe'' \<in> set (map Key (Contents ?r)) \<and>
      strict_prefix ?id (first_segment ''App-1.0-win-x64-beta/app.exe'')"
    unfolding id by (simp add: first_segment_def)
  from s [OF this] have 1: "first_segment ''App-1.0-win-x64-beta/app.exe'' \<noteq> ''App-1.0-win-x64''"
    and 2: "\<lparr>Key = ''App-1.0-win-x64-beta/app.exe''\<rparr> \<in> set objs"
    unfolding id by simp_all
  have "\<not> (\<exists>rest. ''App-1.0-mac-x64/app.dmg'' = ?id @ rest)"
    unfolding id by simp
  with i [of "''App-1.0-mac-x64/app.dmg''"] have 3: "''App-1.0-mac-x64/app.dmg'' \<notin> set (map Key objs)"
    by blast
  from c have 4: "calls (run example_env
        [Call (RemoveBuild (JStr ''App-1.0-win-x64'')), QThen 0, ListObjectsDone 0 (Inr ?r)] ?w) =
       [(ByInit 0, HeadBucket (JStr ''myapp-updates'')),
        (ByTask 0, ListObjectsV2 (JStr ''myapp-updates'')),
        (ByTask 0, DeleteObjects (JStr ''myapp-updates'') objs)]"
    by (simp only: example_provisioned_facts append.simps)
  show ?thesis
    by (rule exI [of _ objs], intro conjI) (rule 4, rule 1, rule 2, rule 3)
qed

end
